theory Spec2Isabelle
  imports Complex_Main "HOL-Library.AList" "HOL-Library.Multiset"
begin

section \<open>Card World: an infinite-canvas note board\<close>

text \<open>
  A shallow embedding of the viewport (class World, src/cards.js), the card store
  (class CardManager, src/cards.js), the history manager (class UndoRedoManager,
  src/undoredo.js), the editing panel's close path (class Sidebar, src/sidebar.js)
  and the import path (class Storage, src/storage.js).

  JavaScript numbers are modelled as exact reals: every statement about coordinates
  and scales below is a statement about the arithmetic the code writes down, not
  about IEEE rounding. Card ids are integers. A JavaScript Map is an association
  list in insertion order (\<open>AList.update\<close> is \<open>Map.set\<close>: an existing key keeps
  its place, a new key goes to the end), a JavaScript Set is a list without
  repetition in insertion order.
\<close>

subsection \<open>The viewport (class World)\<close>

record world =
  translateX :: real
  translateY :: real
  targetScale :: real
  targetTX :: real
  targetTY :: real
  rafId :: bool  \<comment> \<open>an animation frame is scheduled (\<open>rafId !== null\<close>)\<close>
  scale :: real

definition DAMPING :: real where
  "DAMPING = 2 / 10"

definition MIN_SCALE :: real where
  "MIN_SCALE = 1 / 10"

definition MAX_SCALE :: real where
  "MAX_SCALE = 2"

definition ZOOM_SENSITIVITY :: real where
  "ZOOM_SENSITIVITY = 15 / 10000"

text \<open>The state the constructor leaves before \<open>centerView\<close> runs.\<close>

definition World_constructor :: world where
  "World_constructor =
     \<lparr>translateX = 0, translateY = 0, targetScale = 1, targetTX = 0, targetTY = 0,
      rafId = False, scale = 1\<rparr>"

text \<open>\<open>centerView\<close>: the viewport's rectangle is the host's, so its size is a parameter.\<close>

definition centerView :: "real \<Rightarrow> real \<Rightarrow> world \<Rightarrow> world" where
  "centerView rect_width rect_height w =
     w\<lparr>translateX := rect_width / 2, targetTX := rect_width / 2,
       translateY := rect_height / 2, targetTY := rect_height / 2\<rparr>"

definition kickAnimation :: "world \<Rightarrow> world" where
  "kickAnimation w = (if \<not> rafId w then w\<lparr>rafId := True\<rparr> else w)"

text \<open>
  The wheel listener of \<open>setupEventListeners\<close>. \<open>dragging\<close> is
  \<open>window.cardManager?.isDraggingCard\<close>; \<open>deltaMode\<close>, \<open>deltaY\<close>, \<open>clientX\<close>,
  \<open>clientY\<close> are the event's fields; \<open>rect_left\<close>, \<open>rect_top\<close> the viewport's
  bounding rectangle.
\<close>

definition wheel ::
  "bool \<Rightarrow> nat \<Rightarrow> real \<Rightarrow> real \<Rightarrow> real \<Rightarrow> real \<Rightarrow> real \<Rightarrow> world \<Rightarrow> world" where
  "wheel dragging deltaMode e_deltaY clientX clientY rect_left rect_top w =
     (if dragging then w
      else
        let deltaY = (if deltaMode = 1 then e_deltaY * 16
                      else if deltaMode = 2 then e_deltaY * 800
                      else e_deltaY);
            mouseX = clientX - rect_left;
            mouseY = clientY - rect_top;
            worldX = mouseX - targetTX w;
            worldY = mouseY - targetTY w;
            zoom = exp (- deltaY * ZOOM_SENSITIVITY);
            newTargetScale = min MAX_SCALE (max MIN_SCALE (targetScale w * zoom));
            scaleFactor = newTargetScale / targetScale w
        in kickAnimation
             (w\<lparr>targetTX := mouseX - worldX * scaleFactor,
                targetTY := mouseY - worldY * scaleFactor,
                targetScale := newTargetScale\<rparr>))"

text \<open>One frame of \<open>animate\<close>: the lerp, then the convergence test.\<close>

definition animate :: "world \<Rightarrow> world" where
  "animate w =
     (let tx = translateX w + (targetTX w - translateX w) * DAMPING;
          ty = translateY w + (targetTY w - translateY w) * DAMPING;
          sc = scale w + (targetScale w - scale w) * DAMPING;
          done = (\<bar>targetTX w - tx\<bar> < 1 / 100 \<and> \<bar>targetTY w - ty\<bar> < 1 / 100
                  \<and> \<bar>targetScale w - sc\<bar> < 1 / 10000)
      in w\<lparr>translateX := tx, translateY := ty, scale := sc, rafId := \<not> done\<rparr>)"

definition screenToWorld :: "world \<Rightarrow> real \<Rightarrow> real \<Rightarrow> real \<times> real" where
  "screenToWorld w screenX screenY =
     ((screenX - translateX w) / scale w, (screenY - translateY w) / scale w)"

definition worldToScreen :: "world \<Rightarrow> real \<Rightarrow> real \<Rightarrow> real \<times> real" where
  "worldToScreen w worldX worldY =
     (worldX * scale w + translateX w, worldY * scale w + translateY w)"

text \<open>
  The transform the animation is heading for: the viewport once \<open>animate\<close> has
  converged, with the current values equal to the targets.
\<close>

definition atTarget :: "world \<Rightarrow> world" where
  "atTarget w = w\<lparr>translateX := targetTX w, translateY := targetTY w, scale := targetScale w\<rparr>"

definition atRest :: "world \<Rightarrow> bool" where
  "atRest w = (translateX w = targetTX w \<and> translateY w = targetTY w \<and> scale w = targetScale w)"

text \<open>
  A persisted world state (\<open>getWorldState\<close>'s shape, read back from JSON): every
  field may be absent.
\<close>

record worldState =
  ws_translateX :: "real option"
  ws_translateY :: "real option"
  ws_scale :: "real option"
  ws_targetTX :: "real option"
  ws_targetTY :: "real option"
  ws_targetScale :: "real option"

text \<open>\<open>a || b\<close> on an optional number: an absent value and zero are falsy.\<close>

definition orElse :: "real option \<Rightarrow> real \<Rightarrow> real" where
  "orElse a b = (case a of None \<Rightarrow> b | Some v \<Rightarrow> if v = 0 then b else v)"

text \<open>\<open>Storage.applyWorldState\<close>; \<open>None\<close> is a falsy \<open>worldState\<close> argument.\<close>

definition applyWorldState :: "worldState option \<Rightarrow> world \<Rightarrow> world" where
  "applyWorldState worldState w =
     (case worldState of
        None \<Rightarrow> w
      | Some s \<Rightarrow>
          let w1 = (case ws_translateX s of
                      None \<Rightarrow> w
                    | Some v \<Rightarrow> w\<lparr>translateX := v, targetTX := orElse (ws_targetTX s) v\<rparr>);
              w2 = (case ws_translateY s of
                      None \<Rightarrow> w1
                    | Some v \<Rightarrow> w1\<lparr>translateY := v, targetTY := orElse (ws_targetTY s) v\<rparr>);
              w3 = (case ws_scale s of
                      None \<Rightarrow> w2
                    | Some v \<Rightarrow> w2\<lparr>scale := v, targetScale := orElse (ws_targetScale s) v\<rparr>)
          in w3)"

text \<open>The bounds the data model gives the zoom factor and its target.\<close>

definition scaleBounded :: "world \<Rightarrow> bool" where
  "scaleBounded w =
     (MIN_SCALE \<le> scale w \<and> scale w \<le> MAX_SCALE
      \<and> MIN_SCALE \<le> targetScale w \<and> targetScale w \<le> MAX_SCALE)"

text \<open>
  A persisted world state whose zoom is inside the bounds: the scale it carries, and
  the target scale \<open>applyWorldState\<close> derives from it, when it carries one.
\<close>

definition worldStateBounded :: "worldState \<Rightarrow> bool" where
  "worldStateBounded s =
     (case ws_scale s of
        None \<Rightarrow> True
      | Some v \<Rightarrow>
          MIN_SCALE \<le> v \<and> v \<le> MAX_SCALE
          \<and> MIN_SCALE \<le> orElse (ws_targetScale s) v \<and> orElse (ws_targetScale s) v \<le> MAX_SCALE)"

subsection \<open>Cards and the card store (class CardManager)\<close>

datatype card_height = Auto | Px real

text \<open>A card record as the store holds it (\<open>id\<close>, \<open>x\<close>, \<open>y\<close> are \<open>cid\<close>, \<open>card_x\<close>, \<open>card_y\<close>).\<close>

record card =
  cid :: int
  card_x :: real
  card_y :: real
  width :: real
  height :: card_height
  content :: string

text \<open>The argument of \<open>createCard\<close>: an object literal in which every key may be absent.\<close>

record cardInit =
  init_id :: "int option"
  init_x :: "real option"
  init_y :: "real option"
  init_width :: "real option"
  init_height :: "card_height option"
  init_content :: "string option"

record cardManager =
  cards :: "(int \<times> card) list"
  nextId :: int
  activeCard :: "int option"
  selectedCards :: "int list"
  isDraggingCard :: bool
  draggedCard :: "int option"  \<comment> \<open>the dragged element, by its \<open>data-card-id\<close>\<close>
  dragOffset :: "real \<times> real"
  multiDragOffsets :: "(int \<times> real \<times> real) list"
  dragStartPositions :: "(int \<times> real \<times> real) list"

definition CardManager_constructor :: cardManager where
  "CardManager_constructor =
     \<lparr>cards = [], nextId = 1, activeCard = None, selectedCards = [], isDraggingCard = False,
      draggedCard = None, dragOffset = (0, 0), multiDragOffsets = [], dragStartPositions = []\<rparr>"

text \<open>An id used as a condition (\<open>data.id || \<dots>\<close>, \<open>state.activeCard && \<dots>\<close>): \<open>null\<close>, \<open>undefined\<close> and 0 are falsy.\<close>

definition truthy :: "int option \<Rightarrow> bool" where
  "truthy a = (case a of None \<Rightarrow> False | Some i \<Rightarrow> i \<noteq> 0)"

definition Map_has :: "(int \<times> 'a) list \<Rightarrow> int \<Rightarrow> bool" where
  "Map_has m k = (map_of m k \<noteq> None)"

definition Set_add :: "int \<Rightarrow> int list \<Rightarrow> int list" where
  "Set_add k ks = (if k \<in> set ks then ks else ks @ [k])"

text \<open>
  \<open>createCard\<close>. The key under which the card is stored is \<open>data.id || this.nextId++\<close>;
  the record is built from the defaults and then overwritten by the spread \<open>...data\<close>,
  so every key the argument has wins, the \<open>id\<close> included. The DOM element it appends
  holds no state the store reads back.
\<close>

definition createCard :: "cardInit \<Rightarrow> cardManager \<Rightarrow> cardManager" where
  "createCard d cm =
     (let fresh = \<not> truthy (init_id d);
          key = (if fresh then nextId cm else the (init_id d));
          n1 = (if fresh then nextId cm + 1 else nextId cm);
          cardData = \<lparr>cid = (case init_id d of None \<Rightarrow> key | Some i \<Rightarrow> i),
                      card_x = (case init_x d of None \<Rightarrow> 0 | Some v \<Rightarrow> v),
                      card_y = (case init_y d of None \<Rightarrow> 0 | Some v \<Rightarrow> v),
                      width = (case init_width d of None \<Rightarrow> 300 | Some v \<Rightarrow> v),
                      height = (case init_height d of None \<Rightarrow> Auto | Some h \<Rightarrow> h),
                      content = (case init_content d of
                                   None \<Rightarrow> ''<p>New card content...</p>''
                                 | Some t \<Rightarrow> t)\<rparr>
      in cm\<lparr>cards := AList.update key cardData (cards cm),
            nextId := (if key \<ge> n1 then key + 1 else n1)\<rparr>)"

text \<open>A stored card passed back to \<open>createCard\<close>: every key is present.\<close>

definition asInit :: "card \<Rightarrow> cardInit" where
  "asInit c =
     \<lparr>init_id = Some (cid c), init_x = Some (card_x c), init_y = Some (card_y c),
      init_width = Some (width c), init_height = Some (height c),
      init_content = Some (content c)\<rparr>"

subsection \<open>The history manager (class UndoRedoManager)\<close>

text \<open>
  A snapshot: \<open>cards\<close> is a plain object keyed by card id, kept here in the order its
  keys were created; \<open>selectedCards\<close> is an array, \<open>activeCard\<close> an id or \<open>null\<close>.
\<close>

record snapshot =
  snap_cards :: "(int \<times> card) list"
  snap_selectedCards :: "int list"
  snap_activeCard :: "int option"

text \<open>
  The payload of an entry is used for labels only: \<open>{}\<close>, a drag's ids with start and
  final positions, or the card ids another caller names.
\<close>

datatype payload =
    No_payload
  | Drag_payload "int list" "(int \<times> real \<times> real) list" "(int \<times> real \<times> real) list"
  | Card_payload "int list"

record historyEntry =
  operation :: string
  timestamp :: nat
  state :: snapshot
  payload_data :: payload

record pendingDrag =
  pd_operation :: string
  pd_cardIds :: "int list"
  pd_startPositions :: "(int \<times> real \<times> real) list"
  pd_timestamp :: nat

record undoRedoManager =
  history :: "historyEntry list"
  currentIndex :: int
  isPerformingUndoRedo :: bool
  contentChangeTimeout :: "(int \<times> string \<times> string) option"
    \<comment> \<open>the pending debounce timer, with the arguments its callback closes over\<close>
  pendingDragOperation :: "pendingDrag option"

definition maxHistorySize :: nat where
  "maxHistorySize = 50"

definition UndoRedoManager_constructor :: undoRedoManager where
  "UndoRedoManager_constructor =
     \<lparr>history = [], currentIndex = - 1, isPerformingUndoRedo = False,
      contentChangeTimeout = None, pendingDragOperation = None\<rparr>"

text \<open>
  \<open>captureCurrentState\<close>: one property per entry of the Map, assigned in the Map's order
  (assigning to a key the object already has replaces its value in place).
\<close>

definition captureCurrentState :: "cardManager \<Rightarrow> snapshot" where
  "captureCurrentState cm =
     \<lparr>snap_cards = fold (\<lambda>(cardId, cardData). AList.update cardId cardData) (cards cm) [],
      snap_selectedCards = selectedCards cm,
      snap_activeCard = activeCard cm\<rparr>"

text \<open>\<open>Array.prototype.slice(0, end)\<close>: a negative end counts from the length.\<close>

definition slice0 :: "'a list \<Rightarrow> int \<Rightarrow> 'a list" where
  "slice0 xs e =
     (let n = int (length xs);
          k = (if e < 0 then max (n + e) 0 else min e n)
      in take (nat k) xs)"

text \<open>\<open>saveState\<close>; \<open>now\<close> is \<open>Date.now()\<close>, \<open>cm\<close> the card store it captures.\<close>

definition saveState ::
  "string \<Rightarrow> payload \<Rightarrow> nat \<Rightarrow> cardManager \<Rightarrow> undoRedoManager \<Rightarrow> undoRedoManager" where
  "saveState tag d now cm m =
     (if isPerformingUndoRedo m then m
      else
        let currentState = captureCurrentState cm;
            entry = \<lparr>operation = tag, timestamp = now, state = currentState, payload_data = d\<rparr>;
            h1 = (if currentIndex m < int (length (history m)) - 1
                  then slice0 (history m) (currentIndex m + 1) else history m);
            h2 = h1 @ [entry];
            i2 = currentIndex m + 1
        in if length h2 > maxHistorySize
           then m\<lparr>history := tl h2, currentIndex := i2 - 1\<rparr>
           else m\<lparr>history := h2, currentIndex := i2\<rparr>)"

text \<open>\<open>saveContentState\<close>: (re)starts the debounce timer, unless a restore is running.\<close>

definition saveContentState ::
  "int \<Rightarrow> string \<Rightarrow> string \<Rightarrow> undoRedoManager \<Rightarrow> undoRedoManager" where
  "saveContentState cardId oldContent newContent m =
     (if isPerformingUndoRedo m then m
      else m\<lparr>contentChangeTimeout := Some (cardId, oldContent, newContent)\<rparr>)"

definition canUndo :: "undoRedoManager \<Rightarrow> bool" where
  "canUndo m = (currentIndex m > 0)"

definition canRedo :: "undoRedoManager \<Rightarrow> bool" where
  "canRedo m = (currentIndex m < int (length (history m)) - 1)"

definition clearHistory :: "undoRedoManager \<Rightarrow> undoRedoManager" where
  "clearHistory m =
     m\<lparr>history := [], currentIndex := - 1, pendingDragOperation := None,
       contentChangeTimeout := None\<rparr>"

definition initialize :: "nat \<Rightarrow> cardManager \<Rightarrow> undoRedoManager \<Rightarrow> undoRedoManager" where
  "initialize now cm m = saveState ''initial_state'' No_payload now cm m"

subsection \<open>The editing panel (class Sidebar), as far as a restore reaches it\<close>

record sidebar =
  isOpen :: bool
  currentCard :: "card option"
  lastSavedContent :: string
  sb_contentChangeTimeout :: bool  \<comment> \<open>the panel's own debounce timer is pending\<close>

text \<open>
  \<open>Sidebar.close\<close>: flushes a pending content change into the history manager, resets
  the panel and clears the store's active card.
\<close>

definition Sidebar_close ::
  "undoRedoManager \<Rightarrow> cardManager \<Rightarrow> sidebar \<Rightarrow> undoRedoManager \<times> cardManager \<times> sidebar" where
  "Sidebar_close m cm sb =
     (let m1 = (if sb_contentChangeTimeout sb
                then (case currentCard sb of
                        None \<Rightarrow> m
                      | Some c \<Rightarrow>
                          if lastSavedContent sb \<noteq> content c
                          then saveContentState (cid c) (lastSavedContent sb) (content c) m
                          else m)
                else m);
          sb1 = sb\<lparr>sb_contentChangeTimeout := False, isOpen := False, currentCard := None,
                   lastSavedContent := []\<rparr>;
          cm1 = (if truthy (activeCard cm) then cm\<lparr>activeCard := None\<rparr> else cm)
      in (m1, cm1, sb1))"

subsection \<open>Restoring a snapshot\<close>

text \<open>
  \<open>Object.values\<close> lists an object's array-index keys (integers from 0 to 2^32 - 2)
  first, in ascending order, and its other keys after them in creation order.
\<close>

definition isArrayIndex :: "int \<Rightarrow> bool" where
  "isArrayIndex k = (0 \<le> k \<and> k < 4294967295)"

definition ownPropertyOrder :: "(int \<times> 'a) list \<Rightarrow> (int \<times> 'a) list" where
  "ownPropertyOrder obj =
     sort_key fst (filter (\<lambda>p. isArrayIndex (fst p)) obj)
     @ filter (\<lambda>p. \<not> isArrayIndex (fst p)) obj"

definition Object_values :: "(int \<times> 'a) list \<Rightarrow> 'a list" where
  "Object_values obj = map snd (ownPropertyOrder obj)"

text \<open>
  \<open>applyState\<close> on the three objects it touches. The restoring flag is raised first and
  lowered in the \<open>finally\<close> block; \<open>None\<close> is a falsy \<open>state\<close>. The panel's form fields
  (\<open>populateForm\<close>) and the debounced \<open>storage.saveCards\<close> hold no state that the
  store or the history read.
\<close>

definition applyState ::
  "snapshot option \<Rightarrow> undoRedoManager \<times> cardManager \<times> sidebar
     \<Rightarrow> undoRedoManager \<times> cardManager \<times> sidebar" where
  "applyState st sys =
     (case sys of (m, cm, sb) \<Rightarrow>
        let m1 = m\<lparr>isPerformingUndoRedo := True\<rparr> in
        (case st of
           None \<Rightarrow> (m1\<lparr>isPerformingUndoRedo := False\<rparr>, cm, sb)
         | Some s \<Rightarrow>
             let cm1 = cm\<lparr>cards := [], selectedCards := []\<rparr>;
                 cm2 = fold (\<lambda>cardData. createCard (asInit cardData))
                         (Object_values (snap_cards s)) cm1;
                 cm3 = cm2\<lparr>selectedCards := fold Set_add (snap_selectedCards s) []\<rparr>;
                 r = (if truthy (snap_activeCard s) \<and> Map_has (cards cm3) (the (snap_activeCard s))
                      then (m1, cm3\<lparr>activeCard := snap_activeCard s\<rparr>, sb)
                      else Sidebar_close m1 (cm3\<lparr>activeCard := None\<rparr>) sb)
             in (case r of (m2, cm4, sb2) \<Rightarrow> (m2\<lparr>isPerformingUndoRedo := False\<rparr>, cm4, sb2))))"

text \<open>
  \<open>undo\<close> and \<open>redo\<close> return the success flag and the new state; \<open>None\<close> is the
  TypeError of reading \<open>.operation\<close> of an entry that does not exist.
\<close>

definition undo ::
  "undoRedoManager \<times> cardManager \<times> sidebar
     \<Rightarrow> (bool \<times> undoRedoManager \<times> cardManager \<times> sidebar) option" where
  "undo sys =
     (case sys of (m, cm, sb) \<Rightarrow>
        if \<not> canUndo m then Some (False, sys)
        else
          let m1 = m\<lparr>currentIndex := currentIndex m - 1\<rparr> in
          if 0 \<le> currentIndex m1 \<and> currentIndex m1 < int (length (history m1))
          then Some (True,
                 applyState (Some (state (history m1 ! nat (currentIndex m1)))) (m1, cm, sb))
          else None)"

definition redo ::
  "undoRedoManager \<times> cardManager \<times> sidebar
     \<Rightarrow> (bool \<times> undoRedoManager \<times> cardManager \<times> sidebar) option" where
  "redo sys =
     (case sys of (m, cm, sb) \<Rightarrow>
        if \<not> canRedo m then Some (False, sys)
        else
          let m1 = m\<lparr>currentIndex := currentIndex m + 1\<rparr> in
          if 0 \<le> currentIndex m1 \<and> currentIndex m1 < int (length (history m1))
          then Some (True,
                 applyState (Some (state (history m1 ! nat (currentIndex m1)))) (m1, cm, sb))
          else None)"

subsection \<open>Sequences of history operations\<close>

text \<open>
  The operations a user can trigger on the history, and \<open>Edit\<close> for anything else that
  changes the card store or the panel in between.
\<close>

datatype action =
    Save string payload nat
  | Undo
  | Redo
  | ClearHistory
  | Initialize nat
  | Edit cardManager sidebar

fun step ::
  "action \<Rightarrow> undoRedoManager \<times> cardManager \<times> sidebar
     \<Rightarrow> (undoRedoManager \<times> cardManager \<times> sidebar) option" where
  "step (Save tag d now) (m, cm, sb) = Some (saveState tag d now cm m, cm, sb)"
| "step Undo sys = map_option snd (undo sys)"
| "step Redo sys = map_option snd (redo sys)"
| "step ClearHistory (m, cm, sb) = Some (clearHistory m, cm, sb)"
| "step (Initialize now) (m, cm, sb) = Some (initialize now cm m, cm, sb)"
| "step (Edit cm' sb') (m, cm, sb) = Some (m, cm', sb')"

fun run ::
  "action list \<Rightarrow> undoRedoManager \<times> cardManager \<times> sidebar
     \<Rightarrow> (undoRedoManager \<times> cardManager \<times> sidebar) option" where
  "run [] sys = Some sys"
| "run (a # as) sys = (case step a sys of None \<Rightarrow> None | Some sys' \<Rightarrow> run as sys')"

text \<open>\<open>n\<close> calls of \<open>undo\<close> (or \<open>redo\<close>) in a row, each of which has to return \<open>true\<close>.\<close>

fun repeatOk ::
  "nat \<Rightarrow> ('s \<Rightarrow> (bool \<times> 's) option) \<Rightarrow> 's \<Rightarrow> 's option" where
  "repeatOk 0 f s = Some s"
| "repeatOk (Suc n) f s =
     (case f s of
        Some (True, s') \<Rightarrow> repeatOk n f s'
      | _ \<Rightarrow> None)"

text \<open>A run of \<open>saveState\<close> calls, each with its tag, payload, clock and the store it captures.\<close>

fun saveStates ::
  "(string \<times> payload \<times> nat \<times> cardManager) list \<Rightarrow> undoRedoManager \<Rightarrow> undoRedoManager" where
  "saveStates [] m = m"
| "saveStates ((tag, d, now, cm) # rest) m = saveStates rest (saveState tag d now cm m)"

text \<open>
  The history manager between two event handlers: at most \<open>maxHistorySize\<close> entries,
  the index inside [-1, length - 1], no restore running.
\<close>

definition historyValid :: "undoRedoManager \<Rightarrow> bool" where
  "historyValid m =
     (length (history m) \<le> maxHistorySize
      \<and> - 1 \<le> currentIndex m \<and> currentIndex m \<le> int (length (history m)) - 1
      \<and> \<not> isPerformingUndoRedo m)"

text \<open>
  The card store as \<open>createCard\<close> builds it: one entry per key, every key below the id
  counter, and a card whose id is not 0 stored under its own id.
\<close>

definition storeValid :: "cardManager \<Rightarrow> bool" where
  "storeValid cm =
     (distinct (map fst (cards cm))
      \<and> list_all (\<lambda>(k, c). k < nextId cm \<and> (cid c = 0 \<or> cid c = k)) (cards cm))"

text \<open>
  What a restored store shares with a snapshot: the same card records (id, position,
  size, content), the same set of selected ids, and the snapshot's active id whenever
  that id is \<open>null\<close> or the non-zero id of a card of the snapshot.
\<close>

definition activeRestorable :: "snapshot \<Rightarrow> bool" where
  "activeRestorable s =
     (case snap_activeCard s of
        None \<Rightarrow> True
      | Some a \<Rightarrow> a \<noteq> 0 \<and> (case map_of (snap_cards s) a of None \<Rightarrow> False | Some c \<Rightarrow> cid c = a))"

definition restoredFrom :: "snapshot \<Rightarrow> cardManager \<Rightarrow> bool" where
  "restoredFrom s cm =
     (mset (map snd (cards cm)) = mset (map snd (snap_cards s))
      \<and> set (selectedCards cm) = set (snap_selectedCards s)
      \<and> (if activeRestorable s then activeCard cm = snap_activeCard s else True))"

subsection \<open>Snapping (CardManager.applySnapping)\<close>

definition SNAP_DISTANCE :: real where
  "SNAP_DISTANCE = 5"

text \<open>
  An alignment candidate. A position is \<open>None\<close> when the code computes it from a height
  that is still the string \<open>'auto'\<close> (no element to measure): the sum is then a string,
  the distance \<open>NaN\<close>, and every comparison with it false.
\<close>

record alignment =
  draggedPos :: "real option"
  targetPos :: "real option"
  snapLine :: "real option"

text \<open>
  The body of the two \<open>forEach\<close> loops, on one axis: the state is the least distance
  so far, the snapped coordinate and the snap line; \<open>p\<close> is the unsnapped coordinate.
\<close>

definition considerAlignment ::
  "real \<Rightarrow> alignment \<Rightarrow> real \<times> real \<times> real option \<Rightarrow> real \<times> real \<times> real option" where
  "considerAlignment p align st =
     (case st of (minDist, snapped, line) \<Rightarrow>
        (case draggedPos align of
           None \<Rightarrow> st
         | Some dp \<Rightarrow>
             (case targetPos align of
                None \<Rightarrow> st
              | Some tp \<Rightarrow>
                  let dist = \<bar>dp - tp\<bar> in
                  if dist < SNAP_DISTANCE \<and> dist < minDist
                  then (dist, p + (tp - dp), snapLine align)
                  else st)))"

definition plusHeight :: "real \<Rightarrow> real option \<Rightarrow> real option" where
  "plusHeight v h = (case h of None \<Rightarrow> None | Some k \<Rightarrow> Some (v + k))"

definition xAlignments :: "real \<Rightarrow> card \<Rightarrow> card \<Rightarrow> alignment list" where
  "xAlignments x draggedCardData cardData =
     [\<lparr>draggedPos = Some x, targetPos = Some (card_x cardData),
       snapLine = Some (card_x cardData)\<rparr>,
      \<lparr>draggedPos = Some x, targetPos = Some (card_x cardData + width cardData),
       snapLine = Some (card_x cardData + width cardData)\<rparr>,
      \<lparr>draggedPos = Some (x + width draggedCardData), targetPos = Some (card_x cardData),
       snapLine = Some (card_x cardData)\<rparr>,
      \<lparr>draggedPos = Some (x + width draggedCardData),
       targetPos = Some (card_x cardData + width cardData),
       snapLine = Some (card_x cardData + width cardData)\<rparr>]"

definition yAlignments :: "real \<Rightarrow> real option \<Rightarrow> card \<Rightarrow> real option \<Rightarrow> alignment list" where
  "yAlignments y draggedHeight cardData cardHeight =
     [\<lparr>draggedPos = Some y, targetPos = Some (card_y cardData),
       snapLine = Some (card_y cardData)\<rparr>,
      \<lparr>draggedPos = Some y, targetPos = plusHeight (card_y cardData) cardHeight,
       snapLine = plusHeight (card_y cardData) cardHeight\<rparr>,
      \<lparr>draggedPos = plusHeight y draggedHeight, targetPos = Some (card_y cardData),
       snapLine = Some (card_y cardData)\<rparr>,
      \<lparr>draggedPos = plusHeight y draggedHeight,
       targetPos = plusHeight (card_y cardData) cardHeight,
       snapLine = plusHeight (card_y cardData) cardHeight\<rparr>]"

text \<open>
  The height used for snapping: the number stored, or for \<open>'auto'\<close> the
  \<open>offsetHeight\<close> of the element found by \<open>data-card-id\<close>. The DOM is the host's:
  \<open>offsetHeight i\<close> is that measurement, \<open>None\<close> when no element carries the id.
\<close>

definition snapHeight :: "(int \<Rightarrow> real option) \<Rightarrow> int \<Rightarrow> card \<Rightarrow> real option" where
  "snapHeight offsetHeight elementId cardData =
     (case height cardData of Px h \<Rightarrow> Some h | Auto \<Rightarrow> offsetHeight elementId)"

text \<open>
  One round of the loop over \<open>this.cards\<close>. \<open>None\<close> is the TypeError of reading
  \<open>draggedCardData.height\<close> when the dragged card is \<open>undefined\<close>.
\<close>

definition snapStep ::
  "(int \<Rightarrow> real option) \<Rightarrow> real \<Rightarrow> real \<Rightarrow> card option \<Rightarrow> int list \<Rightarrow> int \<times> card
     \<Rightarrow> ((real \<times> real \<times> real option) \<times> (real \<times> real \<times> real option)) option
     \<Rightarrow> ((real \<times> real \<times> real option) \<times> (real \<times> real \<times> real option)) option" where
  "snapStep offsetHeight x y dragged excludeCards entry acc =
     (case acc of
        None \<Rightarrow> None
      | Some (sx, sy) \<Rightarrow>
          (case entry of (cardId, cardData) \<Rightarrow>
             if cardId \<in> set excludeCards then Some (sx, sy)
             else
               (case dragged of
                  None \<Rightarrow> None
                | Some draggedCardData \<Rightarrow>
                    let cardHeight = snapHeight offsetHeight cardId cardData;
                        draggedHeight = snapHeight offsetHeight (cid draggedCardData) draggedCardData
                    in Some (fold (considerAlignment x) (xAlignments x draggedCardData cardData) sx,
                             fold (considerAlignment y)
                               (yAlignments y draggedHeight cardData cardHeight) sy))))"

record snapResult =
  res_x :: real
  res_y :: real
  snapLineX :: "real option"
  snapLineY :: "real option"

definition applySnapping ::
  "(int \<Rightarrow> real option) \<Rightarrow> real \<Rightarrow> real \<Rightarrow> card option \<Rightarrow> int list \<Rightarrow> (int \<times> card) list
     \<Rightarrow> snapResult option" where
  "applySnapping offsetHeight x y dragged excludeCards allCards =
     (case fold (snapStep offsetHeight x y dragged excludeCards) allCards
             (Some ((SNAP_DISTANCE + 1, x, None), (SNAP_DISTANCE + 1, y, None))) of
        None \<Rightarrow> None
      | Some ((minXDist, snappedX, lineX), (minYDist, snappedY, lineY)) \<Rightarrow>
          Some \<lparr>res_x = snappedX, res_y = snappedY, snapLineX = lineX, snapLineY = lineY\<rparr>)"





subsection \<open>Dragging (startDragging, updateCardDrag, endDragging)\<close>

text \<open>\<open>saveDragState\<close>: remembers the drag, writes no history.\<close>

definition saveDragState ::
  "string \<Rightarrow> int list \<Rightarrow> (int \<times> real \<times> real) list \<Rightarrow> nat \<Rightarrow> undoRedoManager
     \<Rightarrow> undoRedoManager" where
  "saveDragState tag cardIds startPositions now m =
     (if isPerformingUndoRedo m then m
      else m\<lparr>pendingDragOperation :=
               Some \<lparr>pd_operation = tag, pd_cardIds = cardIds,
                     pd_startPositions = startPositions, pd_timestamp = now\<rparr>\<rparr>)"

text \<open>The positions of the listed cards that exist, as an object keyed by card id.\<close>

definition positionsOf :: "(int \<times> card) list \<Rightarrow> int list \<Rightarrow> (int \<times> real \<times> real) list" where
  "positionsOf allCards cardIds =
     fold (\<lambda>cardId acc.
             case map_of allCards cardId of
               None \<Rightarrow> acc
             | Some c \<Rightarrow> AList.update cardId (card_x c, card_y c) acc)
          cardIds []"

text \<open>\<open>finishDragOperation\<close>; \<open>cm\<close> is the card store it reads the final positions from.\<close>

definition finishDragOperation :: "nat \<Rightarrow> cardManager \<Rightarrow> undoRedoManager \<Rightarrow> undoRedoManager" where
  "finishDragOperation now cm m =
     (case pendingDragOperation m of
        None \<Rightarrow> m
      | Some p \<Rightarrow>
          if isPerformingUndoRedo m then m
          else
            let finalPositions = positionsOf (cards cm) (pd_cardIds p);
                hasChanged =
                  list_ex (\<lambda>cardId.
                             case map_of (pd_startPositions p) cardId of
                               None \<Rightarrow> False
                             | Some start \<Rightarrow>
                                 (case map_of finalPositions cardId of
                                    None \<Rightarrow> False
                                  | Some final \<Rightarrow>
                                      fst start \<noteq> fst final \<or> snd start \<noteq> snd final))
                          (pd_cardIds p);
                m1 = (if hasChanged
                      then saveState (pd_operation p)
                             (Drag_payload (pd_cardIds p) (pd_startPositions p) finalPositions)
                             now cm m
                      else m)
            in m1\<lparr>pendingDragOperation := None\<rparr>)"

text \<open>
  \<open>startDragging\<close>: \<open>cardId\<close> is the pressed element's \<open>data-card-id\<close>, \<open>clientX\<close>,
  \<open>clientY\<close> the event's position, \<open>w\<close> the viewport. \<open>None\<close> is the TypeError of
  reading \<open>cardData.x\<close> for an unselected element without a card.
\<close>

definition startDragging ::
  "world \<Rightarrow> nat \<Rightarrow> int \<Rightarrow> real \<Rightarrow> real \<Rightarrow> undoRedoManager \<times> cardManager
     \<Rightarrow> (undoRedoManager \<times> cardManager) option" where
  "startDragging w now cardId clientX clientY sys =
     (case sys of (m, cm) \<Rightarrow>
        let mouseWorldPos = screenToWorld w clientX clientY;
            cm1 = cm\<lparr>isDraggingCard := True, draggedCard := Some cardId,
                     dragStartPositions := [], multiDragOffsets := []\<rparr>
        in if cardId \<in> set (selectedCards cm)
           then
             let cardIds = selectedCards cm;
                 startPositions = positionsOf (cards cm) cardIds;
                 offsets =
                   fold (\<lambda>selectedId acc.
                           case map_of (cards cm) selectedId of
                             None \<Rightarrow> acc
                           | Some c \<Rightarrow>
                               AList.update selectedId
                                 (fst mouseWorldPos - card_x c, snd mouseWorldPos - card_y c) acc)
                        cardIds [];
                 tag = (if length cardIds > 1 then ''multi_card_move'' else ''card_move'')
             in Some (saveDragState tag cardIds startPositions now m,
                      cm1\<lparr>dragStartPositions := startPositions, multiDragOffsets := offsets\<rparr>)
           else
             (case map_of (cards cm) cardId of
                None \<Rightarrow> None
              | Some c \<Rightarrow>
                  Some (saveDragState ''card_move'' [cardId] [(cardId, card_x c, card_y c)] now m,
                        cm1\<lparr>dragStartPositions := [(cardId, card_x c, card_y c)],
                            dragOffset := (fst mouseWorldPos - card_x c,
                                           snd mouseWorldPos - card_y c)\<rparr>)))"

text \<open>
  The position update of one dragged card in a group drag: it happens only if the card
  and its element both exist.
\<close>

definition moveDragged ::
  "(int \<Rightarrow> real option) \<Rightarrow> real \<times> real \<Rightarrow> real \<times> real \<Rightarrow> int \<times> real \<times> real
     \<Rightarrow> (int \<times> card) list \<Rightarrow> (int \<times> card) list" where
  "moveDragged offsetHeight mouseWorldPos delta entry allCards =
     (case entry of (cardId, offset) \<Rightarrow>
        if Map_has allCards cardId \<and> offsetHeight cardId \<noteq> None
        then AList.map_entry cardId
               (\<lambda>c. c\<lparr>card_x := fst mouseWorldPos - fst offset + fst delta,
                       card_y := snd mouseWorldPos - snd offset + snd delta\<rparr>)
               allCards
        else allCards)"

text \<open>
  \<open>updateCardDrag\<close>. \<open>None\<close> is a TypeError: from \<open>applySnapping\<close>, or from writing
  \<open>cardData.x\<close> when the card dragged alone no longer exists. The snap indicators are
  elements only.
\<close>

definition updateCardDrag ::
  "(int \<Rightarrow> real option) \<Rightarrow> world \<Rightarrow> real \<Rightarrow> real \<Rightarrow> cardManager \<Rightarrow> cardManager option" where
  "updateCardDrag offsetHeight w clientX clientY cm =
     (case draggedCard cm of
        None \<Rightarrow> Some cm
      | Some draggedCardId \<Rightarrow>
          let mouseWorldPos = screenToWorld w clientX clientY in
          if multiDragOffsets cm \<noteq> []
          then
            (case map_of (multiDragOffsets cm) draggedCardId of
               None \<Rightarrow> Some cm
             | Some draggedOffset \<Rightarrow>
                 let newX = fst mouseWorldPos - fst draggedOffset;
                     newY = snd mouseWorldPos - snd draggedOffset
                 in (case applySnapping offsetHeight newX newY (map_of (cards cm) draggedCardId)
                            (selectedCards cm) (cards cm) of
                       None \<Rightarrow> None
                     | Some snapped \<Rightarrow>
                         let deltaX = res_x snapped - newX;
                             deltaY = res_y snapped - newY
                         in Some (cm\<lparr>cards :=
                                    fold (moveDragged offsetHeight mouseWorldPos (deltaX, deltaY))
                                      (multiDragOffsets cm) (cards cm)\<rparr>)))
          else
            let newX = fst mouseWorldPos - fst (dragOffset cm);
                newY = snd mouseWorldPos - snd (dragOffset cm)
            in (case applySnapping offsetHeight newX newY (map_of (cards cm) draggedCardId)
                       [draggedCardId] (cards cm) of
                  None \<Rightarrow> None
                | Some snapped \<Rightarrow>
                    if Map_has (cards cm) draggedCardId
                    then Some (cm\<lparr>cards :=
                                 AList.map_entry draggedCardId
                                   (\<lambda>c. c\<lparr>card_x := res_x snapped, card_y := res_y snapped\<rparr>)
                                   (cards cm)\<rparr>)
                    else None))"

text \<open>\<open>endDragging\<close>, with the history manager it reports to.\<close>

definition endDragging ::
  "nat \<Rightarrow> undoRedoManager \<times> cardManager \<Rightarrow> undoRedoManager \<times> cardManager" where
  "endDragging now sys =
     (case sys of (m, cm) \<Rightarrow>
        (case draggedCard cm of
           None \<Rightarrow> (m, cm\<lparr>isDraggingCard := False\<rparr>)
         | Some d \<Rightarrow>
             (finishDragOperation now cm m,
              cm\<lparr>draggedCard := None, multiDragOffsets := [], dragStartPositions := [],
                 isDraggingCard := False\<rparr>)))"

text \<open>A run of pointer movements, each with the viewport as it is at that moment.\<close>

fun dragMoves ::
  "(int \<Rightarrow> real option) \<Rightarrow> (world \<times> real \<times> real) list \<Rightarrow> cardManager \<Rightarrow> cardManager option" where
  "dragMoves offsetHeight [] cm = Some cm"
| "dragMoves offsetHeight ((w, clientX, clientY) # evs) cm =
     (case updateCardDrag offsetHeight w clientX clientY cm of
        None \<Rightarrow> None
      | Some cm' \<Rightarrow> dragMoves offsetHeight evs cm')"

text \<open>The cards a drag moves: the keys of \<open>multiDragOffsets\<close>, or the one card dragged alone.\<close>

definition draggedGroup :: "cardManager \<Rightarrow> int list" where
  "draggedGroup cm =
     (if multiDragOffsets cm \<noteq> [] then map fst (multiDragOffsets cm)
      else (case draggedCard cm of None \<Rightarrow> [] | Some d \<Rightarrow> [d]))"

definition cardPosition :: "cardManager \<Rightarrow> int \<Rightarrow> (real \<times> real) option" where
  "cardPosition cm cardId = map_option (\<lambda>c. (card_x c, card_y c)) (map_of (cards cm) cardId)"

text \<open>
  The selection as the data model has it: a set (no id twice) of ids of cards of the
  store.
\<close>

definition selectionValid :: "cardManager \<Rightarrow> bool" where
  "selectionValid cm =
     (distinct (selectedCards cm) \<and> list_all (Map_has (cards cm)) (selectedCards cm))"

text \<open>
  The dragged cards all sit at one common point \<open>t\<close> minus their own drag offsets: the
  shape a group keeps while it is dragged.
\<close>

definition anchored :: "(int \<times> real \<times> real) list \<Rightarrow> real \<times> real \<Rightarrow> cardManager \<Rightarrow> bool" where
  "anchored offs t cm =
     (\<forall>(i, off) \<in> set offs. cardPosition cm i = Some (fst t - fst off, snd t - snd off))"

subsection \<open>The drag path in binary64 arithmetic\<close>

text \<open>
  JavaScript numbers are IEEE 754 binary64 values: \<open>+\<close>, \<open>-\<close> and \<open>/\<close> give the exact
  result rounded to the nearest value with a 53-bit significand, a tie going to the even
  significand. \<open>binary64 x\<close> is that rounding of a real \<open>x\<close>: \<open>floorLog2\<close> finds the
  binade of \<open>\<bar>x\<bar>\<close>, one halving or doubling at a time (2200 steps reach every
  binade of the format), results below \<open>2^-1022\<close> are subnormal, and a result beyond the
  largest finite value (\<open>Infinity\<close>) is outside the model. \<open>Math.abs\<close> and comparisons
  are exact.
\<close>

definition roundTiesToEven :: "real \<Rightarrow> int" where
  "roundTiesToEven q =
     (let f = \<lfloor>q\<rfloor>; r = q - of_int f
      in if r < 1 / 2 then f else if r > 1 / 2 then f + 1 else if even f then f else f + 1)"

fun floorLog2 :: "nat \<Rightarrow> real \<Rightarrow> int" where
  "floorLog2 0 x = 0"
| "floorLog2 (Suc n) x =
     (if x \<ge> 2 then floorLog2 n (x / 2) + 1
      else if x < 1 then floorLog2 n (x * 2) - 1
      else 0)"

definition pow2 :: "int \<Rightarrow> real" where
  "pow2 e = (if e \<ge> 0 then 2 ^ nat e else 1 / 2 ^ nat (- e))"

definition binary64 :: "real \<Rightarrow> real" where
  "binary64 x =
     (if x = 0 then 0
      else
        let e = max (floorLog2 2200 \<bar>x\<bar>) (- 1022);
            ulp = pow2 (e - 52)
        in of_int (roundTiesToEven (x / ulp)) * ulp)"

text \<open>
  \<open>screenToWorld\<close>, \<open>applySnapping\<close>, \<open>startDragging\<close> and \<open>updateCardDrag\<close> once more,
  with every arithmetic operation of the source rounded as the engine rounds it.
\<close>

definition screenToWorld64 :: "world \<Rightarrow> real \<Rightarrow> real \<Rightarrow> real \<times> real" where
  "screenToWorld64 w screenX screenY =
     (binary64 (binary64 (screenX - translateX w) / scale w),
      binary64 (binary64 (screenY - translateY w) / scale w))"

definition considerAlignment64 ::
  "real \<Rightarrow> alignment \<Rightarrow> real \<times> real \<times> real option \<Rightarrow> real \<times> real \<times> real option" where
  "considerAlignment64 p align st =
     (case st of (minDist, snapped, line) \<Rightarrow>
        (case draggedPos align of
           None \<Rightarrow> st
         | Some dp \<Rightarrow>
             (case targetPos align of
                None \<Rightarrow> st
              | Some tp \<Rightarrow>
                  let dist = \<bar>binary64 (dp - tp)\<bar> in
                  if dist < SNAP_DISTANCE \<and> dist < minDist
                  then (dist, binary64 (p + binary64 (tp - dp)), snapLine align)
                  else st)))"

definition plusHeight64 :: "real \<Rightarrow> real option \<Rightarrow> real option" where
  "plusHeight64 v h = (case h of None \<Rightarrow> None | Some k \<Rightarrow> Some (binary64 (v + k)))"

definition xAlignments64 :: "real \<Rightarrow> card \<Rightarrow> card \<Rightarrow> alignment list" where
  "xAlignments64 x draggedCardData cardData =
     [\<lparr>draggedPos = Some x, targetPos = Some (card_x cardData),
       snapLine = Some (card_x cardData)\<rparr>,
      \<lparr>draggedPos = Some x, targetPos = Some (binary64 (card_x cardData + width cardData)),
       snapLine = Some (binary64 (card_x cardData + width cardData))\<rparr>,
      \<lparr>draggedPos = Some (binary64 (x + width draggedCardData)),
       targetPos = Some (card_x cardData), snapLine = Some (card_x cardData)\<rparr>,
      \<lparr>draggedPos = Some (binary64 (x + width draggedCardData)),
       targetPos = Some (binary64 (card_x cardData + width cardData)),
       snapLine = Some (binary64 (card_x cardData + width cardData))\<rparr>]"

definition yAlignments64 :: "real \<Rightarrow> real option \<Rightarrow> card \<Rightarrow> real option \<Rightarrow> alignment list" where
  "yAlignments64 y draggedHeight cardData cardHeight =
     [\<lparr>draggedPos = Some y, targetPos = Some (card_y cardData),
       snapLine = Some (card_y cardData)\<rparr>,
      \<lparr>draggedPos = Some y, targetPos = plusHeight64 (card_y cardData) cardHeight,
       snapLine = plusHeight64 (card_y cardData) cardHeight\<rparr>,
      \<lparr>draggedPos = plusHeight64 y draggedHeight, targetPos = Some (card_y cardData),
       snapLine = Some (card_y cardData)\<rparr>,
      \<lparr>draggedPos = plusHeight64 y draggedHeight,
       targetPos = plusHeight64 (card_y cardData) cardHeight,
       snapLine = plusHeight64 (card_y cardData) cardHeight\<rparr>]"

definition snapStep64 ::
  "(int \<Rightarrow> real option) \<Rightarrow> real \<Rightarrow> real \<Rightarrow> card option \<Rightarrow> int list \<Rightarrow> int \<times> card
     \<Rightarrow> ((real \<times> real \<times> real option) \<times> (real \<times> real \<times> real option)) option
     \<Rightarrow> ((real \<times> real \<times> real option) \<times> (real \<times> real \<times> real option)) option" where
  "snapStep64 offsetHeight x y dragged excludeCards entry acc =
     (case acc of
        None \<Rightarrow> None
      | Some (sx, sy) \<Rightarrow>
          (case entry of (cardId, cardData) \<Rightarrow>
             if cardId \<in> set excludeCards then Some (sx, sy)
             else
               (case dragged of
                  None \<Rightarrow> None
                | Some draggedCardData \<Rightarrow>
                    let cardHeight = snapHeight offsetHeight cardId cardData;
                        draggedHeight = snapHeight offsetHeight (cid draggedCardData) draggedCardData
                    in Some (fold (considerAlignment64 x) (xAlignments64 x draggedCardData cardData) sx,
                             fold (considerAlignment64 y)
                               (yAlignments64 y draggedHeight cardData cardHeight) sy))))"

definition applySnapping64 ::
  "(int \<Rightarrow> real option) \<Rightarrow> real \<Rightarrow> real \<Rightarrow> card option \<Rightarrow> int list \<Rightarrow> (int \<times> card) list
     \<Rightarrow> snapResult option" where
  "applySnapping64 offsetHeight x y dragged excludeCards allCards =
     (case fold (snapStep64 offsetHeight x y dragged excludeCards) allCards
             (Some ((binary64 (SNAP_DISTANCE + 1), x, None), (binary64 (SNAP_DISTANCE + 1), y, None))) of
        None \<Rightarrow> None
      | Some ((minXDist, snappedX, lineX), (minYDist, snappedY, lineY)) \<Rightarrow>
          Some \<lparr>res_x = snappedX, res_y = snappedY, snapLineX = lineX, snapLineY = lineY\<rparr>)"

definition startDragging64 ::
  "world \<Rightarrow> nat \<Rightarrow> int \<Rightarrow> real \<Rightarrow> real \<Rightarrow> undoRedoManager \<times> cardManager
     \<Rightarrow> (undoRedoManager \<times> cardManager) option" where
  "startDragging64 w now cardId clientX clientY sys =
     (case sys of (m, cm) \<Rightarrow>
        let mouseWorldPos = screenToWorld64 w clientX clientY;
            cm1 = cm\<lparr>isDraggingCard := True, draggedCard := Some cardId,
                     dragStartPositions := [], multiDragOffsets := []\<rparr>
        in if cardId \<in> set (selectedCards cm)
           then
             let cardIds = selectedCards cm;
                 startPositions = positionsOf (cards cm) cardIds;
                 offsets =
                   fold (\<lambda>selectedId acc.
                           case map_of (cards cm) selectedId of
                             None \<Rightarrow> acc
                           | Some c \<Rightarrow>
                               AList.update selectedId
                                 (binary64 (fst mouseWorldPos - card_x c),
                                  binary64 (snd mouseWorldPos - card_y c)) acc)
                        cardIds [];
                 tag = (if length cardIds > 1 then ''multi_card_move'' else ''card_move'')
             in Some (saveDragState tag cardIds startPositions now m,
                      cm1\<lparr>dragStartPositions := startPositions, multiDragOffsets := offsets\<rparr>)
           else
             (case map_of (cards cm) cardId of
                None \<Rightarrow> None
              | Some c \<Rightarrow>
                  Some (saveDragState ''card_move'' [cardId] [(cardId, card_x c, card_y c)] now m,
                        cm1\<lparr>dragStartPositions := [(cardId, card_x c, card_y c)],
                            dragOffset := (binary64 (fst mouseWorldPos - card_x c),
                                           binary64 (snd mouseWorldPos - card_y c))\<rparr>)))"

definition moveDragged64 ::
  "(int \<Rightarrow> real option) \<Rightarrow> real \<times> real \<Rightarrow> real \<times> real \<Rightarrow> int \<times> real \<times> real
     \<Rightarrow> (int \<times> card) list \<Rightarrow> (int \<times> card) list" where
  "moveDragged64 offsetHeight mouseWorldPos delta entry allCards =
     (case entry of (cardId, offset) \<Rightarrow>
        if Map_has allCards cardId \<and> offsetHeight cardId \<noteq> None
        then AList.map_entry cardId
               (\<lambda>c. c\<lparr>card_x := binary64 (binary64 (fst mouseWorldPos - fst offset) + fst delta),
                       card_y := binary64 (binary64 (snd mouseWorldPos - snd offset) + snd delta)\<rparr>)
               allCards
        else allCards)"

definition updateCardDrag64 ::
  "(int \<Rightarrow> real option) \<Rightarrow> world \<Rightarrow> real \<Rightarrow> real \<Rightarrow> cardManager \<Rightarrow> cardManager option" where
  "updateCardDrag64 offsetHeight w clientX clientY cm =
     (case draggedCard cm of
        None \<Rightarrow> Some cm
      | Some draggedCardId \<Rightarrow>
          let mouseWorldPos = screenToWorld64 w clientX clientY in
          if multiDragOffsets cm \<noteq> []
          then
            (case map_of (multiDragOffsets cm) draggedCardId of
               None \<Rightarrow> Some cm
             | Some draggedOffset \<Rightarrow>
                 let newX = binary64 (fst mouseWorldPos - fst draggedOffset);
                     newY = binary64 (snd mouseWorldPos - snd draggedOffset)
                 in (case applySnapping64 offsetHeight newX newY (map_of (cards cm) draggedCardId)
                            (selectedCards cm) (cards cm) of
                       None \<Rightarrow> None
                     | Some snapped \<Rightarrow>
                         let deltaX = binary64 (res_x snapped - newX);
                             deltaY = binary64 (res_y snapped - newY)
                         in Some (cm\<lparr>cards :=
                                    fold (moveDragged64 offsetHeight mouseWorldPos (deltaX, deltaY))
                                      (multiDragOffsets cm) (cards cm)\<rparr>)))
          else
            let newX = binary64 (fst mouseWorldPos - fst (dragOffset cm));
                newY = binary64 (snd mouseWorldPos - snd (dragOffset cm))
            in (case applySnapping64 offsetHeight newX newY (map_of (cards cm) draggedCardId)
                       [draggedCardId] (cards cm) of
                  None \<Rightarrow> None
                | Some snapped \<Rightarrow>
                    if Map_has (cards cm) draggedCardId
                    then Some (cm\<lparr>cards :=
                                 AList.map_entry draggedCardId
                                   (\<lambda>c. c\<lparr>card_x := res_x snapped, card_y := res_y snapped\<rparr>)
                                   (cards cm)\<rparr>)
                    else None))"

subsection \<open>Import (Storage.importData)\<close>

text \<open>
  What reading and parsing the file gives: the read fails; \<open>JSON.parse\<close> throws (with
  its message); the text parses to \<open>null\<close>; or it parses to a value whose \<open>cards\<close> is
  absent (or falsy), something that is not an array, or an array. An array element is
  \<open>None\<close> when it is \<open>null\<close>, which \<open>createCard\<close> cannot read.
\<close>

datatype docCards =
    Cards_absent
  | Cards_not_array
  | Cards_array "cardInit option list"

record importDocument =
  doc_cards :: docCards
  doc_worldState :: "worldState option"

datatype fileContent =
    Read_failed
  | Unparsable string
  | Parsed_null
  | Parsed importDocument

datatype importError =
    Failed_to_read_file
  | SyntaxError string
  | TypeError
  | Invalid_data_format

text \<open>What \<open>saveData\<close> writes under the storage key.\<close>

record persisted =
  p_cards :: "cardInit option list"
  p_worldState :: worldState
  p_version :: string
  p_timestamp :: nat

definition emptyWorldState :: worldState where
  "emptyWorldState =
     \<lparr>ws_translateX = None, ws_translateY = None, ws_scale = None, ws_targetTX = None,
      ws_targetTY = None, ws_targetScale = None\<rparr>"

text \<open>
  \<open>saveData\<close> for an imported document whose \<open>cards\<close> is an array. \<open>writable\<close> says
  whether \<open>localStorage.setItem\<close> succeeds; its exception is caught and logged.
\<close>

definition saveData ::
  "bool \<Rightarrow> nat \<Rightarrow> cardInit option list \<Rightarrow> worldState option \<Rightarrow> persisted option
     \<Rightarrow> persisted option" where
  "saveData writable now cs ws stored =
     (if writable
      then Some \<lparr>p_cards = cs,
                 p_worldState = (case ws of None \<Rightarrow> emptyWorldState | Some v \<Rightarrow> v),
                 p_version = ''1.0'', p_timestamp = now\<rparr>
      else stored)"

text \<open>
  The \<open>forEach\<close> of \<open>loadCards\<close>: it stops with a TypeError (\<open>False\<close>) at a \<open>null\<close>
  element, keeping the cards created so far.
\<close>

fun createEach :: "cardInit option list \<Rightarrow> cardManager \<Rightarrow> bool \<times> cardManager" where
  "createEach [] cm = (True, cm)"
| "createEach (None # rest) cm = (False, cm)"
| "createEach (Some d # rest) cm = createEach rest (createCard d cm)"

definition loadCards :: "cardInit option list \<Rightarrow> cardManager \<Rightarrow> bool \<times> cardManager" where
  "loadCards cardsData cm = createEach cardsData (cm\<lparr>cards := [], selectedCards := []\<rparr>)"

text \<open>
  \<open>importData\<close> on the persisted data, the card store and the viewport: the promise's
  outcome (\<open>Inl\<close> a rejection, \<open>Inr\<close> the document it resolves with) and the state
  afterwards.
\<close>

definition importData ::
  "fileContent \<Rightarrow> bool \<Rightarrow> nat \<Rightarrow> persisted option \<times> cardManager \<times> world
     \<Rightarrow> (importError + importDocument) \<times> (persisted option \<times> cardManager \<times> world)" where
  "importData file writable now st =
     (case st of (stored, cm, w) \<Rightarrow>
        (case file of
           Read_failed \<Rightarrow> (Inl Failed_to_read_file, st)
         | Unparsable msg \<Rightarrow> (Inl (SyntaxError msg), st)
         | Parsed_null \<Rightarrow> (Inl TypeError, st)
         | Parsed d \<Rightarrow>
             (case doc_cards d of
                Cards_array cs \<Rightarrow>
                  let stored1 = saveData writable now cs (doc_worldState d) stored in
                  (case loadCards cs cm of
                     (False, cm1) \<Rightarrow> (Inl TypeError, (stored1, cm1, w))
                   | (True, cm1) \<Rightarrow>
                       (Inr d,
                        (stored1, cm1,
                         (case doc_worldState d of
                            None \<Rightarrow> w
                          | Some ws \<Rightarrow> applyWorldState (Some ws) w))))
              | _ \<Rightarrow> (Inl Invalid_data_format, st))))"

text \<open>The document passes validation: it was read, parsed, and has an array-typed \<open>cards\<close>.\<close>

definition validates :: "fileContent \<Rightarrow> bool" where
  "validates file =
     (case file of
        Parsed d \<Rightarrow> (case doc_cards d of Cards_array cs \<Rightarrow> True | _ \<Rightarrow> False)
      | _ \<Rightarrow> False)"

subsection \<open>Example boards\<close>

text \<open>
  Card A at (0, 0) and card B at (305, 0), both 300 wide with automatic height; a store
  holding A, a store holding both with B selected and active, and the store after an
  import replaced the cards while card 5 was active (\<open>loadCards\<close> clears the cards and
  the selection, not \<open>activeCard\<close>).
\<close>

definition cardA :: card where
  "cardA = \<lparr>cid = 1, card_x = 0, card_y = 0, width = 300, height = Auto, content = ''A''\<rparr>"

definition cardB :: card where
  "cardB = \<lparr>cid = 2, card_x = 305, card_y = 0, width = 300, height = Auto, content = ''B''\<rparr>"

definition boardA :: cardManager where
  "boardA = CardManager_constructor\<lparr>cards := [(1, cardA)], nextId := 2\<rparr>"

definition boardAB :: cardManager where
  "boardAB = CardManager_constructor\<lparr>cards := [(1, cardA), (2, cardB)], nextId := 3,
     activeCard := Some 2, selectedCards := [2]\<rparr>"

definition boardStale :: cardManager where
  "boardStale = CardManager_constructor\<lparr>cards := [(1, cardA)], nextId := 6,
     activeCard := Some 5\<rparr>"

definition panelClosed :: sidebar where
  "panelClosed = \<lparr>isOpen = False, currentCard = None, lastSavedContent = [],
     sb_contentChangeTimeout = False\<rparr>"

text \<open>The panel open on card B with an edit not yet flushed into the history.\<close>

definition panelEditing :: sidebar where
  "panelEditing = \<lparr>isOpen = True, currentCard = Some (cardB\<lparr>content := ''B edited''\<rparr>),
     lastSavedContent = ''B'', sb_contentChangeTimeout = True\<rparr>"

text \<open>
  Card C, 100 high, at (697, 0); a store with A, B and C in which A and B are selected;
  a DOM in which every element measures 100 high.
\<close>

definition cardC :: card where
  "cardC = \<lparr>cid = 3, card_x = 697, card_y = 0, width = 300, height = Px 100, content = ''C''\<rparr>"

definition boardThree :: cardManager where
  "boardThree = CardManager_constructor\<lparr>cards := [(1, cardA), (2, cardB), (3, cardC)],
     nextId := 4, activeCard := Some 2, selectedCards := [1, 2]\<rparr>"

definition measured100 :: "int \<Rightarrow> real option" where
  "measured100 i = Some 100"

text \<open>
  Cards P and Q at x = 0.1 and x = 0.3 (the binary64 values of these literals), both
  selected, 300 wide and 100 high.
\<close>

definition boardFractional :: cardManager where
  "boardFractional = CardManager_constructor
     \<lparr>cards := [(1, \<lparr>cid = 1, card_x = binary64 (1 / 10), card_y = 0, width = 300,
                     height = Px 100, content = ''P''\<rparr>),
                (2, \<lparr>cid = 2, card_x = binary64 (3 / 10), card_y = 0, width = 300,
                     height = Px 100, content = ''Q''\<rparr>)],
      nextId := 3, selectedCards := [1, 2]\<rparr>"

section \<open>Properties\<close>

subsection \<open>Viewport\<close>

lemma newTargetScale_bounds:
  "MIN_SCALE \<le> min MAX_SCALE (max MIN_SCALE v) \<and> min MAX_SCALE (max MIN_SCALE v) \<le> MAX_SCALE"
  by (simp add: MIN_SCALE_def MAX_SCALE_def)

lemma anchor_algebra:
  fixes m t s n :: real
  assumes "s \<noteq> 0" and "n \<noteq> 0"
  shows "(m - (m - (m - t) * (n / s))) / n = (m - t) / s"
  using assms by (simp add: field_simps)

lemma wheel_targets:
  "\<not> dragging \<Longrightarrow>
   \<exists>n. MIN_SCALE \<le> n \<and> n \<le> MAX_SCALE
     \<and> targetScale (wheel dragging deltaMode e_deltaY clientX clientY rect_left rect_top w) = n
     \<and> targetTX (wheel dragging deltaMode e_deltaY clientX clientY rect_left rect_top w)
         = (clientX - rect_left) - ((clientX - rect_left) - targetTX w) * (n / targetScale w)
     \<and> targetTY (wheel dragging deltaMode e_deltaY clientX clientY rect_left rect_top w)
         = (clientY - rect_top) - ((clientY - rect_top) - targetTY w) * (n / targetScale w)"
  using newTargetScale_bounds
  by (simp add: wheel_def Let_def kickAnimation_def)

lemma wheel_target_fixed:
  assumes "targetScale w \<noteq> 0"
  shows "screenToWorld (atTarget (wheel dragging deltaMode e_deltaY clientX clientY rect_left rect_top w))
           (clientX - rect_left) (clientY - rect_top)
         = screenToWorld (atTarget w) (clientX - rect_left) (clientY - rect_top)"
proof (cases dragging)
  case True
  then show ?thesis by (simp add: wheel_def)
next
  case False
  from wheel_targets[OF False, of deltaMode e_deltaY clientX clientY rect_left rect_top w]
  obtain n where n: "MIN_SCALE \<le> n"
     "targetScale (wheel dragging deltaMode e_deltaY clientX clientY rect_left rect_top w) = n"
     "targetTX (wheel dragging deltaMode e_deltaY clientX clientY rect_left rect_top w)
         = (clientX - rect_left) - ((clientX - rect_left) - targetTX w) * (n / targetScale w)"
     "targetTY (wheel dragging deltaMode e_deltaY clientX clientY rect_left rect_top w)
         = (clientY - rect_top) - ((clientY - rect_top) - targetTY w) * (n / targetScale w)"
    by blast
  have n0: "n \<noteq> 0" using n(1) by (simp add: MIN_SCALE_def)
  show ?thesis
    unfolding screenToWorld_def atTarget_def
    using n(2-4) anchor_algebra[OF assms n0] by simp
qed

lemma atTarget_atRest: "atRest w \<Longrightarrow> atTarget w = w"
  by (simp add: atRest_def atTarget_def)

lemma exp_three_halves: "(2::real) \<le> exp (3 / 2)"
proof -
  have "1 + (3 / 2 :: real) \<le> exp (3 / 2)" by (rule exp_ge_add_one_self)
  then show ?thesis by simp
qed

lemma first_zoom:
  "wheel False 0 (- 1000) 0 0 0 0 World_constructor =
     \<lparr>translateX = 0, translateY = 0, targetScale = 2, targetTX = 0, targetTY = 0,
      rafId = True, scale = 1\<rparr>"
proof -
  have "min MAX_SCALE (max MIN_SCALE (1 * exp (3 / 2))) = 2"
    using exp_three_halves by (simp add: MIN_SCALE_def MAX_SCALE_def min_def max_def)
  then show ?thesis
    unfolding wheel_def Let_def World_constructor_def kickAnimation_def
    by (simp add: ZOOM_SENSITIVITY_def)
qed

text \<open>
  C4 (as stated: for every viewport state the world point under the cursor, read through
  the post-zoom target transform, equals the one read through the pre-zoom transform).
  The handler anchors against the pre-zoom \<^emph>\<open>target\<close> transform, not against the
  transform on screen, and while an earlier zoom is still animating the two differ.
  From the constructor's state a wheel event at (0, 0) with delta -1000 sets the target
  scale to 2 while the screen still shows scale 1. A second such event at (100, 0),
  before any frame has run, leaves the target where it is: the world point under
  (100, 0) is 50 through the target transform, but it was 100 on screen before the
  event.
\<close>

theorem zoom_anchor_mid_animation_counterexample:
  "screenToWorld
     (atTarget (wheel False 0 (- 1000) 100 0 0 0
        (wheel False 0 (- 1000) 0 0 0 0 World_constructor))) 100 0
   \<noteq> screenToWorld (wheel False 0 (- 1000) 0 0 0 0 World_constructor) 100 0"
proof -
  have m: "min MAX_SCALE (max MIN_SCALE (2 * exp (3 / 2))) = 2"
    using exp_three_halves by (simp add: MIN_SCALE_def MAX_SCALE_def min_def max_def)
  have "wheel False 0 (- 1000) 100 0 0 0
          \<lparr>translateX = 0, translateY = 0, targetScale = 2, targetTX = 0, targetTY = 0,
           rafId = True, scale = 1\<rparr>
        = \<lparr>translateX = 0, translateY = 0, targetScale = 2, targetTX = 0, targetTY = 0,
           rafId = True, scale = 1\<rparr>"
    unfolding wheel_def Let_def kickAnimation_def using m
    by (simp add: ZOOM_SENSITIVITY_def)
  then show ?thesis
    unfolding first_zoom by (simp add: screenToWorld_def atTarget_def)
qed

text \<open>
  C4 (amended): for every viewport state whose target scale is not zero and every wheel
  event, whatever its delta and delta mode and whether or not the new target scale is
  clamped, the world point at the cursor read through the post-zoom target transform
  equals the world point at the cursor read through the pre-zoom target transform; when
  the viewport is at rest (current transform equal to its targets) this is the world
  point \<open>screenToWorld\<close> gave before the zoom.
\<close>

theorem zoom_anchor_target:
  assumes "targetScale w \<noteq> 0"
  shows "screenToWorld (atTarget (wheel dragging deltaMode e_deltaY clientX clientY rect_left rect_top w))
           (clientX - rect_left) (clientY - rect_top)
         = screenToWorld (atTarget w) (clientX - rect_left) (clientY - rect_top)
       \<and> (atRest w \<longrightarrow>
            screenToWorld (atTarget (wheel dragging deltaMode e_deltaY clientX clientY rect_left rect_top w))
              (clientX - rect_left) (clientY - rect_top)
            = screenToWorld w (clientX - rect_left) (clientY - rect_top))"
  using wheel_target_fixed[OF assms] atTarget_atRest by metis

text \<open>
  Witness: the viewport at rest at scale 1, centred at (400, 300); a wheel event at
  the screen point (400 + 120, 300 + 45) with delta -1000 asks for a zoom of exp 1.5,
  which is clamped to \<open>MAX_SCALE\<close>.
\<close>

theorem zoom_anchor_target_witness:
  "targetScale \<lparr>translateX = 400, translateY = 300, targetScale = 1, targetTX = 400,
      targetTY = 300, rafId = False, scale = 1\<rparr> \<noteq> 0
   \<and> atRest \<lparr>translateX = 400, translateY = 300, targetScale = 1, targetTX = 400,
      targetTY = 300, rafId = False, scale = 1\<rparr>
   \<and> screenToWorld
        (atTarget (wheel False 0 (- 1000) 520 345 0 0
          \<lparr>translateX = 400, translateY = 300, targetScale = 1, targetTX = 400,
           targetTY = 300, rafId = False, scale = 1\<rparr>)) (520 - 0) (345 - 0)
      = (120, 45)"
  using zoom_anchor_target[where w = "\<lparr>translateX = 400, translateY = 300, targetScale = 1,
      targetTX = 400, targetTY = 300, rafId = False, scale = 1\<rparr>" and dragging = False
      and deltaMode = 0 and e_deltaY = "- 1000" and clientX = 520 and clientY = 345
      and rect_left = 0 and rect_top = 0]
  by (simp add: atRest_def screenToWorld_def)

lemma lerp_between:
  fixes a b lo hi :: real
  assumes "lo \<le> a" and "a \<le> hi" and "lo \<le> b" and "b \<le> hi"
  shows "lo \<le> a + (b - a) * DAMPING \<and> a + (b - a) * DAMPING \<le> hi"
proof -
  have e: "a + (b - a) * DAMPING = (4 * a + b) / 5"
    by (simp add: DAMPING_def field_simps)
  show ?thesis unfolding e using assms by simp
qed

lemma animate_bounded: "scaleBounded w \<Longrightarrow> scaleBounded (animate w)"
  unfolding scaleBounded_def animate_def Let_def
  using lerp_between[of MIN_SCALE "scale w" MAX_SCALE "targetScale w"] by simp

lemma wheel_bounded: "scaleBounded w \<Longrightarrow> scaleBounded (wheel d dm dy cx cy rl rt w)"
  unfolding scaleBounded_def wheel_def Let_def kickAnimation_def
  using newTargetScale_bounds by simp

lemma wheel_clamps_target:
  "\<not> d \<Longrightarrow> MIN_SCALE \<le> targetScale (wheel d dm dy cx cy rl rt w)
     \<and> targetScale (wheel d dm dy cx cy rl rt w) \<le> MAX_SCALE"
  unfolding wheel_def Let_def kickAnimation_def
  using newTargetScale_bounds by simp

lemma applyWorldState_bounded:
  "scaleBounded w \<Longrightarrow> worldStateBounded s \<Longrightarrow> scaleBounded (applyWorldState (Some s) w)"
  by (simp add: applyWorldState_def scaleBounded_def worldStateBounded_def Let_def
      split: option.splits)

text \<open>
  C9 (as stated: every operation that changes scale, applying a persisted or imported
  world state included, keeps scale and target scale inside the bounds).
  \<open>applyWorldState\<close> copies the scale it is given and clamps nothing: importing a
  document with no cards and a world state that says scale 5 leaves the viewport, which
  started inside the bounds, at scale 5, above \<open>MAX_SCALE\<close>.
\<close>

theorem applyWorldState_unclamped_counterexample:
  "scaleBounded World_constructor
   \<and> \<not> scaleBounded
       (snd (snd (snd
          (importData
             (Parsed \<lparr>doc_cards = Cards_array [],
                      doc_worldState =
                        Some \<lparr>ws_translateX = None, ws_translateY = None, ws_scale = Some 5,
                              ws_targetTX = None, ws_targetTY = None, ws_targetScale = None\<rparr>\<rparr>)
             True 0 (None, CardManager_constructor, World_constructor)))))
   \<and> scale (applyWorldState
              (Some \<lparr>ws_translateX = None, ws_translateY = None, ws_scale = Some 5,
                     ws_targetTX = None, ws_targetTY = None, ws_targetScale = None\<rparr>)
              World_constructor) = 5"
  by (simp add: importData_def loadCards_def saveData_def applyWorldState_def scaleBounded_def
      World_constructor_def orElse_def MIN_SCALE_def MAX_SCALE_def)

text \<open>
  C9 (amended): the constructor starts inside the bounds; a wheel zoom always leaves the
  target scale inside the bounds and keeps a bounded viewport bounded; a frame of the
  animation keeps a bounded viewport bounded; applying a world state to a bounded
  viewport leaves it bounded if and only if the state carries no scale or carries scale
  values that are themselves inside the bounds (the values are copied as they are, never
  clamped).
\<close>

theorem scale_stays_bounded:
  assumes "scaleBounded w"
  shows "scaleBounded World_constructor
       \<and> scaleBounded (wheel dragging deltaMode e_deltaY clientX clientY rect_left rect_top w)
       \<and> (\<not> dragging \<longrightarrow>
            MIN_SCALE \<le> targetScale (wheel dragging deltaMode e_deltaY clientX clientY rect_left rect_top w')
            \<and> targetScale (wheel dragging deltaMode e_deltaY clientX clientY rect_left rect_top w') \<le> MAX_SCALE)
       \<and> scaleBounded (animate w)
       \<and> scaleBounded (applyWorldState None w)
       \<and> (scaleBounded (applyWorldState (Some s) w) \<longleftrightarrow> worldStateBounded s)"
proof -
  have "scaleBounded World_constructor"
    by (simp add: scaleBounded_def World_constructor_def MIN_SCALE_def MAX_SCALE_def)
  moreover have "scaleBounded (applyWorldState None w)"
    using assms by (simp add: applyWorldState_def)
  moreover have "scaleBounded (applyWorldState (Some s) w) \<longleftrightarrow> worldStateBounded s"
    using assms
    by (cases "ws_scale s")
      (auto simp add: applyWorldState_def scaleBounded_def worldStateBounded_def Let_def
         split: option.splits)
  ultimately show ?thesis
    using assms wheel_bounded animate_bounded wheel_clamps_target
    by blast
qed

text \<open>
  Witness: from the constructor's state, a wheel zoom-out by delta 3000 (clamped at
  \<open>MIN_SCALE\<close>), a persisted state at scale 1.5 heading for scale 2, which leaves the
  viewport bounded, and one at scale 1.5 heading for scale 3, which does not.
\<close>

theorem scale_stays_bounded_witness:
  "scaleBounded World_constructor
   \<and> worldStateBounded
       \<lparr>ws_translateX = Some 10, ws_translateY = Some 20, ws_scale = Some (3 / 2),
        ws_targetTX = None, ws_targetTY = None, ws_targetScale = Some 2\<rparr>
   \<and> scaleBounded (wheel False 0 3000 10 10 0 0 World_constructor)
   \<and> scaleBounded (animate World_constructor)
   \<and> scaleBounded
       (applyWorldState
          (Some \<lparr>ws_translateX = Some 10, ws_translateY = Some 20, ws_scale = Some (3 / 2),
                 ws_targetTX = None, ws_targetTY = None, ws_targetScale = Some 2\<rparr>)
          World_constructor)
   \<and> \<not> worldStateBounded
       \<lparr>ws_translateX = Some 10, ws_translateY = Some 20, ws_scale = Some (3 / 2),
        ws_targetTX = None, ws_targetTY = None, ws_targetScale = Some 3\<rparr>
   \<and> \<not> scaleBounded
       (applyWorldState
          (Some \<lparr>ws_translateX = Some 10, ws_translateY = Some 20, ws_scale = Some (3 / 2),
                 ws_targetTX = None, ws_targetTY = None, ws_targetScale = Some 3\<rparr>)
          World_constructor)"
proof -
  have b: "scaleBounded World_constructor"
    by (simp add: scaleBounded_def World_constructor_def MIN_SCALE_def MAX_SCALE_def)
  have n: "\<not> worldStateBounded
       \<lparr>ws_translateX = Some 10, ws_translateY = Some 20, ws_scale = Some (3 / 2),
        ws_targetTX = None, ws_targetTY = None, ws_targetScale = Some 3\<rparr>"
    by (simp add: worldStateBounded_def orElse_def MIN_SCALE_def MAX_SCALE_def)
  have s: "worldStateBounded
       \<lparr>ws_translateX = Some 10, ws_translateY = Some 20, ws_scale = Some (3 / 2),
        ws_targetTX = None, ws_targetTY = None, ws_targetScale = Some 2\<rparr>"
    by (simp add: worldStateBounded_def orElse_def MIN_SCALE_def MAX_SCALE_def)
  show ?thesis
    using b s n scale_stays_bounded[OF b, where dragging = False and deltaMode = 0
      and e_deltaY = 3000 and clientX = 10 and clientY = 10 and rect_left = 0 and rect_top = 0
      and w' = World_constructor
      and s = "\<lparr>ws_translateX = Some 10, ws_translateY = Some 20, ws_scale = Some (3 / 2),
        ws_targetTX = None, ws_targetTY = None, ws_targetScale = Some 2\<rparr>"]
      scale_stays_bounded[OF b, where dragging = False and deltaMode = 0
      and e_deltaY = 3000 and clientX = 10 and clientY = 10 and rect_left = 0 and rect_top = 0
      and w' = World_constructor
      and s = "\<lparr>ws_translateX = Some 10, ws_translateY = Some 20, ws_scale = Some (3 / 2),
        ws_targetTX = None, ws_targetTY = None, ws_targetScale = Some 3\<rparr>"]
    by simp
qed


subsection \<open>History manager\<close>

lemma Sidebar_close_restoring:
  "isPerformingUndoRedo m \<Longrightarrow> fst (Sidebar_close m cm sb) = m"
  by (simp add: Sidebar_close_def Let_def saveContentState_def split: option.splits)

lemma Sidebar_close_store:
  "activeCard cm = None \<Longrightarrow> fst (snd (Sidebar_close m cm sb)) = cm"
  by (simp add: Sidebar_close_def Let_def truthy_def)

lemma applyState_None:
  "applyState None (m, cm, sb) = (m\<lparr>isPerformingUndoRedo := False\<rparr>, cm, sb)"
  by (simp add: applyState_def)

lemma applyState_Some:
  "\<exists>sb'. applyState (Some s) (m, cm, sb) =
     (m\<lparr>isPerformingUndoRedo := False\<rparr>,
      (fold (\<lambda>cardData. createCard (asInit cardData)) (Object_values (snap_cards s))
         (cm\<lparr>cards := [], selectedCards := []\<rparr>))
       \<lparr>selectedCards := fold Set_add (snap_selectedCards s) [],
        activeCard :=
          (if truthy (snap_activeCard s)
              \<and> Map_has (cards (fold (\<lambda>cardData. createCard (asInit cardData))
                    (Object_values (snap_cards s)) (cm\<lparr>cards := [], selectedCards := []\<rparr>)))
                   (the (snap_activeCard s))
           then snap_activeCard s else None)\<rparr>,
      sb')"
proof -
  define cm2 where "cm2 = fold (\<lambda>cardData. createCard (asInit cardData)) (Object_values (snap_cards s))
         (cm\<lparr>cards := [], selectedCards := []\<rparr>)"
  define cm3 where "cm3 = cm2\<lparr>selectedCards := fold Set_add (snap_selectedCards s) []\<rparr>"
  define m1 where "m1 = m\<lparr>isPerformingUndoRedo := True\<rparr>"
  obtain m2 cm4 sb2 where r: "Sidebar_close m1 (cm3\<lparr>activeCard := None\<rparr>) sb = (m2, cm4, sb2)"
    by (metis prod_cases3)
  have "m2 = m1"
    using Sidebar_close_restoring[of m1 "cm3\<lparr>activeCard := None\<rparr>" sb] r by (simp add: m1_def)
  moreover have "cm4 = cm3\<lparr>activeCard := None\<rparr>"
    using Sidebar_close_store[of "cm3\<lparr>activeCard := None\<rparr>" m1 sb] r by simp
  ultimately have r': "Sidebar_close m1 (cm3\<lparr>activeCard := None\<rparr>) sb = (m1, cm3\<lparr>activeCard := None\<rparr>, sb2)"
    using r by simp
  have c3: "cards cm3 = cards cm2" by (simp add: cm3_def)
  show ?thesis
    unfolding applyState_def
    apply (simp only: prod.case Let_def option.case cm2_def[symmetric])
    apply (simp only: cm3_def[symmetric] m1_def[symmetric] c3[symmetric])
    using r' by (cases "truthy (snap_activeCard s) \<and> Map_has (cards cm3) (the (snap_activeCard s))")
      (auto simp add: m1_def cm3_def)
qed

lemma applyState_manager:
  "fst (applyState st (m, cm, sb)) = m\<lparr>isPerformingUndoRedo := False\<rparr>"
proof (cases st)
  case None
  then show ?thesis by (simp add: applyState_None)
next
  case (Some s)
  then show ?thesis using applyState_Some[of s m cm sb] by auto
qed

lemma undo_manager:
  assumes "undo (m, cm, sb) = Some (ok, m', cm', sb')"
  shows "m' = (if ok then m\<lparr>currentIndex := currentIndex m - 1, isPerformingUndoRedo := False\<rparr> else m)"
proof -
  have "fst (applyState st (m\<lparr>currentIndex := currentIndex m - 1\<rparr>, cm, sb))
      = m\<lparr>currentIndex := currentIndex m - 1, isPerformingUndoRedo := False\<rparr>" for st
    by (simp add: applyState_manager)
  then show ?thesis
    using assms by (auto simp add: undo_def Let_def split: if_splits) (metis fst_conv)+
qed

lemma redo_manager:
  assumes "redo (m, cm, sb) = Some (ok, m', cm', sb')"
  shows "m' = (if ok then m\<lparr>currentIndex := currentIndex m + 1, isPerformingUndoRedo := False\<rparr> else m)"
proof -
  have "fst (applyState st (m\<lparr>currentIndex := currentIndex m + 1\<rparr>, cm, sb))
      = m\<lparr>currentIndex := currentIndex m + 1, isPerformingUndoRedo := False\<rparr>" for st
    by (simp add: applyState_manager)
  then show ?thesis
    using assms by (auto simp add: redo_def Let_def split: if_splits) (metis fst_conv)+
qed

lemma saveState_valid:
  assumes "historyValid m"
  shows "historyValid (saveState tag d now cm m)
     \<and> currentIndex (saveState tag d now cm m) = int (length (history (saveState tag d now cm m))) - 1
     \<and> history (saveState tag d now cm m) \<noteq> []"
proof -
  define e where "e = \<lparr>operation = tag, timestamp = now, state = captureCurrentState cm, payload_data = d\<rparr>"
  define h1 where "h1 = (if currentIndex m < int (length (history m)) - 1
                  then slice0 (history m) (currentIndex m + 1) else history m)"
  have l1: "int (length h1) = currentIndex m + 1" and l2: "length h1 \<le> maxHistorySize"
    using assms by (auto simp add: h1_def historyValid_def slice0_def Let_def)
  have s: "saveState tag d now cm m =
     (if length (h1 @ [e]) > maxHistorySize
           then m\<lparr>history := tl (h1 @ [e]), currentIndex := currentIndex m + 1 - 1\<rparr>
           else m\<lparr>history := h1 @ [e], currentIndex := currentIndex m + 1\<rparr>)"
    using assms by (simp add: saveState_def historyValid_def Let_def h1_def e_def)
  show ?thesis
  proof (cases "length (h1 @ [e]) > maxHistorySize")
    case True
    then have ne: "h1 \<noteq> []" by (auto simp add: maxHistorySize_def)
    then have t: "tl (h1 @ [e]) = tl h1 @ [e]" by simp
    show ?thesis using True assms l1 l2 ne unfolding s t
      by (auto simp add: historyValid_def)
  next
    case False
    then show ?thesis using assms l1 l2 unfolding s
      by (auto simp add: historyValid_def)
  qed
qed

lemma undo_valid:
  assumes "historyValid m"
  shows "\<exists>m' cm' sb'. undo (m, cm, sb) = Some (canUndo m, m', cm', sb') \<and> historyValid m'
           \<and> history m' = history m
           \<and> currentIndex m' = (if canUndo m then currentIndex m - 1 else currentIndex m)"
proof (cases "canUndo m")
  case False
  then show ?thesis using assms by (simp add: undo_def)
next
  case True
  then have r: "0 \<le> currentIndex m - 1 \<and> currentIndex m - 1 < int (length (history m))"
    using assms by (simp add: canUndo_def historyValid_def)
  obtain m' cm' sb' where a: "applyState (Some (state (history m ! nat (currentIndex m - 1))))
      (m\<lparr>currentIndex := currentIndex m - 1\<rparr>, cm, sb) = (m', cm', sb')"
    by (metis prod_cases3)
  have u: "undo (m, cm, sb) = Some (True, m', cm', sb')"
    using True r a by (simp add: undo_def Let_def)
  have m': "m' = m\<lparr>currentIndex := currentIndex m - 1, isPerformingUndoRedo := False\<rparr>"
    using undo_manager[OF u] by simp
  show ?thesis using u True r assms unfolding m' by (simp add: historyValid_def)
qed

lemma redo_valid:
  assumes "historyValid m"
  shows "\<exists>m' cm' sb'. redo (m, cm, sb) = Some (canRedo m, m', cm', sb') \<and> historyValid m'
           \<and> history m' = history m
           \<and> currentIndex m' = (if canRedo m then currentIndex m + 1 else currentIndex m)"
proof (cases "canRedo m")
  case False
  then show ?thesis using assms by (simp add: redo_def)
next
  case True
  then have r: "0 \<le> currentIndex m + 1 \<and> currentIndex m + 1 < int (length (history m))"
    using assms by (simp add: canRedo_def historyValid_def)
  obtain m' cm' sb' where a: "applyState (Some (state (history m ! nat (currentIndex m + 1))))
      (m\<lparr>currentIndex := currentIndex m + 1\<rparr>, cm, sb) = (m', cm', sb')"
    by (metis prod_cases3)
  have u: "redo (m, cm, sb) = Some (True, m', cm', sb')"
    using True r a by (simp add: redo_def Let_def)
  have m': "m' = m\<lparr>currentIndex := currentIndex m + 1, isPerformingUndoRedo := False\<rparr>"
    using redo_manager[OF u] by simp
  show ?thesis using u True r assms unfolding m' by (simp add: historyValid_def)
qed

lemma clearHistory_valid: "historyValid m \<Longrightarrow> historyValid (clearHistory m)"
  by (simp add: historyValid_def clearHistory_def)

lemma constructor_valid: "historyValid UndoRedoManager_constructor"
  by (simp add: historyValid_def UndoRedoManager_constructor_def)

lemma step_valid:
  assumes "historyValid m"
  shows "\<exists>m' cm' sb'. step a (m, cm, sb) = Some (m', cm', sb') \<and> historyValid m'"
proof (cases a)
  case (Save tag d now)
  then show ?thesis using saveState_valid[OF assms] by simp
next
  case Undo
  then show ?thesis using undo_valid[OF assms, of cm sb] by auto
next
  case Redo
  then show ?thesis using redo_valid[OF assms, of cm sb] by auto
next
  case ClearHistory
  then show ?thesis using clearHistory_valid[OF assms] by simp
next
  case (Initialize now)
  then show ?thesis using saveState_valid[OF assms] by (simp add: initialize_def)
next
  case (Edit cm' sb')
  then show ?thesis using assms by simp
qed

lemma run_valid:
  assumes "historyValid m"
  shows "\<exists>m' cm' sb'. run acts (m, cm, sb) = Some (m', cm', sb') \<and> historyValid m'"
  using assms
proof (induction acts arbitrary: m cm sb)
  case Nil
  then show ?case by simp
next
  case (Cons a acts)
  from step_valid[OF Cons.prems, of a cm sb]
  obtain m1 cm1 sb1 where s: "step a (m, cm, sb) = Some (m1, cm1, sb1)" and v: "historyValid m1"
    by blast
  from Cons.IH[OF v, of cm1 sb1] show ?case using s by simp
qed

lemma saveState_evicts:
  assumes "historyValid m" and "currentIndex m = int maxHistorySize - 1"
  shows "saveState tag d now cm m =
           m\<lparr>history := tl (history m)
                 @ [\<lparr>operation = tag, timestamp = now, state = captureCurrentState cm,
                     payload_data = d\<rparr>],
             currentIndex := currentIndex m\<rparr>"
proof -
  have l: "length (history m) = maxHistorySize"
    using assms by (simp add: historyValid_def)
  then have ne: "history m \<noteq> []" by (auto simp add: maxHistorySize_def)
  show ?thesis
    using assms l ne by (simp add: saveState_def historyValid_def Let_def)
qed


subsection \<open>Restoring a snapshot\<close>

lemma update_fresh: "k \<notin> fst ` set al \<Longrightarrow> AList.update k v al = al @ [(k, v)]"
  by (induction al) auto

lemma fold_update_distinct:
  "distinct (map fst (acc @ xs)) \<Longrightarrow>
   fold (\<lambda>(k, c). AList.update k c) xs acc = acc @ xs"
proof (induction xs arbitrary: acc)
  case Nil
  then show ?case by simp
next
  case (Cons p xs)
  obtain k c where p: "p = (k, c)" by (cases p)
  have f: "k \<notin> fst ` set acc" using Cons.prems p by auto
  have d: "distinct (map fst ((acc @ [(k, c)]) @ xs))" using Cons.prems p by simp
  show ?case using Cons.IH[OF d] p update_fresh[OF f] by simp
qed

lemma captureCurrentState_cards:
  "distinct (map fst (cards cm)) \<Longrightarrow> snap_cards (captureCurrentState cm) = cards cm"
  using fold_update_distinct[of "[]" "cards cm"] by (simp add: captureCurrentState_def)

lemma ownPropertyOrder_mset: "mset (ownPropertyOrder obj) = mset obj"
  by (simp add: ownPropertyOrder_def)

lemma ownPropertyOrder_set: "set (ownPropertyOrder obj) = set obj"
  using ownPropertyOrder_mset[of obj] by (metis set_mset_mset)

lemma ownPropertyOrder_distinct:
  "distinct (map fst obj) \<Longrightarrow> distinct (map fst (ownPropertyOrder obj))"
proof -
  have "mset (map fst (ownPropertyOrder obj)) = mset (map fst obj)"
    using ownPropertyOrder_mset[of obj] by (metis mset_map)
  then show "distinct (map fst obj) \<Longrightarrow> distinct (map fst (ownPropertyOrder obj))"
    by (metis mset_eq_imp_distinct_iff)
qed

lemma Object_values_mset: "mset (Object_values obj) = mset (map snd obj)"
  using ownPropertyOrder_mset[of obj] by (metis Object_values_def mset_map)

lemma keyed_ids_distinct:
  "distinct (map fst kvs) \<Longrightarrow> list_all (\<lambda>(k, c). cid c = 0 \<or> cid c = k) kvs \<Longrightarrow>
   distinct (filter (\<lambda>i. i \<noteq> 0) (map (\<lambda>p. cid (snd p)) kvs))"
proof (induction kvs)
  case Nil
  then show ?case by simp
next
  case (Cons p kvs)
  obtain k c where p: "p = (k, c)" by (cases p)
  have "cid c \<noteq> 0 \<Longrightarrow> cid c \<notin> set (filter (\<lambda>i. i \<noteq> 0) (map (\<lambda>p. cid (snd p)) kvs))"
  proof
    assume nz: "cid c \<noteq> 0" and "cid c \<in> set (filter (\<lambda>i. i \<noteq> 0) (map (\<lambda>p. cid (snd p)) kvs))"
    then obtain k' c' where m: "(k', c') \<in> set kvs" and e: "cid c' = cid c" by auto
    have "cid c' = k'" using Cons.prems(2) m e nz by (auto simp add: list_all_iff)
    moreover have "cid c = k" using Cons.prems(2) p nz by simp
    ultimately have "k' = k" using e by simp
    then show False using Cons.prems(1) p m by force
  qed
  then show ?case using Cons p by simp
qed

lemma card_rebuild:
  "\<lparr>cid = cid c, card_x = card_x c, card_y = card_y c, width = width c, height = height c,
     content = content c\<rparr> = (c::card)"
  by (cases c) simp

lemma createCard_asInit:
  "createCard (asInit c) cm =
     cm\<lparr>cards := AList.update (if cid c \<noteq> 0 then cid c else nextId cm) c (cards cm),
        nextId := (if cid c \<noteq> 0 then (if cid c \<ge> nextId cm then cid c + 1 else nextId cm)
                   else nextId cm + 1)\<rparr>"
proof (cases "cid c = 0")
  case True
  have r: "\<lparr>cid = 0, card_x = card_x c, card_y = card_y c, width = width c, height = height c,
     content = content c\<rparr> = c"
    using card_rebuild[of c] True by simp
  show ?thesis using True by (simp add: createCard_def asInit_def truthy_def Let_def r)
next
  case False
  then show ?thesis by (simp add: createCard_def asInit_def truthy_def Let_def card_rebuild)
qed

lemma createCard_nextId_mono: "nextId cm \<le> nextId (createCard d cm)"
  by (simp add: createCard_def Let_def)

lemma fold_createCard_nextId_mono:
  "nextId cm \<le> nextId (fold (\<lambda>c. createCard (f c)) cs cm)"
proof (induction cs arbitrary: cm)
  case Nil
  then show ?case by simp
next
  case (Cons c cs)
  have "nextId cm \<le> nextId (createCard (f c) cm)" by (rule createCard_nextId_mono)
  also have "\<dots> \<le> nextId (fold (\<lambda>c. createCard (f c)) cs (createCard (f c) cm))" by (rule Cons.IH)
  finally show ?case by simp
qed

lemma restore_fold:
  assumes "distinct (filter (\<lambda>i. i \<noteq> 0) (map cid cs))"
    and "\<forall>c\<in>set cs. cid c \<noteq> 0 \<longrightarrow> cid c < nextId cm \<and> cid c \<notin> fst ` set (cards cm)"
    and "\<forall>k\<in>fst ` set (cards cm). k < nextId cm"
  shows "map snd (cards (fold (\<lambda>c. createCard (asInit c)) cs cm)) = map snd (cards cm) @ cs
       \<and> (\<forall>c\<in>set cs. cid c \<noteq> 0 \<longrightarrow> cid c \<in> fst ` set (cards (fold (\<lambda>c. createCard (asInit c)) cs cm)))
       \<and> fst ` set (cards cm) \<subseteq> fst ` set (cards (fold (\<lambda>c. createCard (asInit c)) cs cm))"
  using assms
proof (induction cs arbitrary: cm)
  case Nil
  then show ?case by simp
next
  case (Cons c cs)
  define key where "key = (if cid c \<noteq> 0 then cid c else nextId cm)"
  define cm' where "cm' = createCard (asInit c) cm"
  have fresh: "key \<notin> fst ` set (cards cm)"
    using Cons.prems(2,3) by (auto simp add: key_def)
  have cards': "cards cm' = cards cm @ [(key, c)]"
    using update_fresh[OF fresh] by (simp add: cm'_def createCard_asInit key_def)
  have next': "nextId cm' = (if cid c \<noteq> 0 then nextId cm else nextId cm + 1)"
    using Cons.prems(2) by (auto simp add: cm'_def createCard_asInit)
  have keylt: "key < nextId cm'"
    using Cons.prems(2) by (simp add: key_def next')
  have p1: "distinct (filter (\<lambda>i. i \<noteq> 0) (map cid cs))"
    using Cons.prems(1) by (simp split: if_splits)
  have p2: "\<forall>c'\<in>set cs. cid c' \<noteq> 0 \<longrightarrow> cid c' < nextId cm' \<and> cid c' \<notin> fst ` set (cards cm')"
  proof (intro ballI impI)
    fix c' assume c': "c' \<in> set cs" and nz: "cid c' \<noteq> 0"
    have a: "cid c' < nextId cm \<and> cid c' \<notin> fst ` set (cards cm)"
      using Cons.prems(2) c' nz by simp
    have "cid c' \<noteq> key"
    proof (cases "cid c \<noteq> 0")
      case True
      then have "cid c \<notin> set (filter (\<lambda>i. i \<noteq> 0) (map cid cs))"
        using Cons.prems(1) by simp
      then have "cid c \<notin> cid ` set cs" using True by auto
      then show ?thesis using c' True by (force simp add: key_def)
    next
      case False
      then show ?thesis using a by (simp add: key_def)
    qed
    then show "cid c' < nextId cm' \<and> cid c' \<notin> fst ` set (cards cm')"
      using a by (auto simp add: cards' next')
  qed
  have p3: "\<forall>k\<in>fst ` set (cards cm'). k < nextId cm'"
    using Cons.prems(3) keylt by (auto simp add: cards' next')
  from Cons.IH[OF p1 p2 p3]
  have ih: "map snd (cards (fold (\<lambda>c. createCard (asInit c)) cs cm')) = map snd (cards cm') @ cs"
    "\<forall>c\<in>set cs. cid c \<noteq> 0 \<longrightarrow> cid c \<in> fst ` set (cards (fold (\<lambda>c. createCard (asInit c)) cs cm'))"
    "fst ` set (cards cm') \<subseteq> fst ` set (cards (fold (\<lambda>c. createCard (asInit c)) cs cm'))"
    by auto
  have f: "fold (\<lambda>c. createCard (asInit c)) (c # cs) cm = fold (\<lambda>c. createCard (asInit c)) cs cm'"
    by (simp add: cm'_def)
  have kin: "key \<in> fst ` set (cards (fold (\<lambda>c. createCard (asInit c)) cs cm'))"
    using ih(3) by (auto simp add: cards')
  have c1: "map snd (cards (fold (\<lambda>c. createCard (asInit c)) cs cm')) = map snd (cards cm) @ c # cs"
    using ih(1) by (simp add: cards')
  have c2: "\<forall>x\<in>set (c # cs). cid x \<noteq> 0 \<longrightarrow>
      cid x \<in> fst ` set (cards (fold (\<lambda>c. createCard (asInit c)) cs cm'))"
    using ih(2) kin by (auto simp add: key_def split: if_splits)
  have c3: "fst ` set (cards cm) \<subseteq> fst ` set (cards (fold (\<lambda>c. createCard (asInit c)) cs cm'))"
    using ih(3) by (auto simp add: cards')
  show ?case
    unfolding f using c1 c2 c3 by blast
qed

lemma set_fold_Set_add: "set (fold Set_add ks acc) = set acc \<union> set ks"
  by (induction ks arbitrary: acc) (auto simp add: Set_add_def)

lemma applyState_store_nextId:
  assumes "applyState st (m, cm, sb) = (m', cm', sb')"
  shows "nextId cm \<le> nextId cm'"
proof (cases st)
  case None
  then show ?thesis using assms by (simp add: applyState_None)
next
  case (Some s)
  have "nextId (cm\<lparr>cards := [], selectedCards := []\<rparr>)
      \<le> nextId (fold (\<lambda>c. createCard (asInit c)) (Object_values (snap_cards s))
              (cm\<lparr>cards := [], selectedCards := []\<rparr>))"
    by (rule fold_createCard_nextId_mono)
  then show ?thesis
    using assms Some applyState_Some[of s m cm sb] by auto
qed

lemma applyState_restores:
  assumes "storeValid cm0" and "nextId cm0 \<le> nextId cm"
    and "applyState (Some (captureCurrentState cm0)) (m, cm, sb) = (m', cm', sb')"
  shows "restoredFrom (captureCurrentState cm0) cm'"
proof -
  define s where "s = captureCurrentState cm0"
  define cs where "cs = Object_values (snap_cards s)"
  define cm1 where "cm1 = cm\<lparr>cards := [], selectedCards := []\<rparr>"
  define cm2 where "cm2 = fold (\<lambda>c. createCard (asInit c)) cs cm1"
  have d0: "distinct (map fst (cards cm0))"
    and a0: "list_all (\<lambda>(k, c). k < nextId cm0 \<and> (cid c = 0 \<or> cid c = k)) (cards cm0)"
    using assms(1) by (simp_all add: storeValid_def)
  have sc: "snap_cards s = cards cm0"
    using captureCurrentState_cards[OF d0] by (simp add: s_def)
  have dk: "distinct (map fst (ownPropertyOrder (cards cm0)))"
    using ownPropertyOrder_distinct[OF d0] .
  have ak: "list_all (\<lambda>(k, c). cid c = 0 \<or> cid c = k) (ownPropertyOrder (cards cm0))"
    using a0 by (auto simp add: list_all_iff ownPropertyOrder_set)
  have mc: "map cid cs = map (\<lambda>p. cid (snd p)) (ownPropertyOrder (cards cm0))"
    by (simp add: cs_def Object_values_def sc)
  have h1: "distinct (filter (\<lambda>i. i \<noteq> 0) (map cid cs))"
    unfolding mc using keyed_ids_distinct[OF dk ak] .
  have mem: "c \<in> set cs \<Longrightarrow> \<exists>k. (k, c) \<in> set (cards cm0)" for c
    by (auto simp add: cs_def Object_values_def sc ownPropertyOrder_set)
  have h2: "\<forall>c\<in>set cs. cid c \<noteq> 0 \<longrightarrow> cid c < nextId cm1 \<and> cid c \<notin> fst ` set (cards cm1)"
  proof (intro ballI impI)
    fix c assume "c \<in> set cs" and nz: "cid c \<noteq> 0"
    then obtain k where k: "(k, c) \<in> set (cards cm0)" using mem by blast
    then have "k < nextId cm0 \<and> cid c = k" using a0 nz by (auto simp add: list_all_iff)
    then show "cid c < nextId cm1 \<and> cid c \<notin> fst ` set (cards cm1)"
      using assms(2) by (simp add: cm1_def)
  qed
  have h3: "\<forall>k\<in>fst ` set (cards cm1). k < nextId cm1" by (simp add: cm1_def)
  from restore_fold[OF h1 h2 h3]
  have r1: "map snd (cards cm2) = cs"
    and r2: "\<forall>c\<in>set cs. cid c \<noteq> 0 \<longrightarrow> cid c \<in> fst ` set (cards cm2)"
    by (simp_all add: cm2_def cm1_def)
  from applyState_Some[of s m cm sb] assms(3)
  have cm': "cm' = cm2\<lparr>selectedCards := fold Set_add (snap_selectedCards s) [],
        activeCard := (if truthy (snap_activeCard s) \<and> Map_has (cards cm2) (the (snap_activeCard s))
           then snap_activeCard s else None)\<rparr>"
    by (auto simp add: s_def cm2_def cs_def cm1_def)
  have g1: "mset (map snd (cards cm')) = mset (map snd (snap_cards s))"
    using r1 Object_values_mset[of "snap_cards s"] by (simp add: cm' cs_def)
  have g2: "set (selectedCards cm') = set (snap_selectedCards s)"
    by (simp add: cm' set_fold_Set_add)
  have g3: "activeCard cm' = snap_activeCard s" if ar: "activeRestorable s"
  proof (cases "snap_activeCard s")
    case None
    then show ?thesis by (simp add: cm' truthy_def)
  next
    case (Some a)
    then obtain c where a: "a \<noteq> 0" and c: "map_of (snap_cards s) a = Some c" and ca: "cid c = a"
      using ar by (auto simp add: activeRestorable_def split: option.splits)
    have "(a, c) \<in> set (cards cm0)" using c sc by (auto dest: map_of_SomeD)
    then have "c \<in> set cs"
      by (force simp add: cs_def Object_values_def sc ownPropertyOrder_set)
    then have "a \<in> fst ` set (cards cm2)" using r2 a ca by auto
    then have "Map_has (cards cm2) a"
      by (simp add: Map_has_def map_of_eq_None_iff)
    then show ?thesis using Some a by (simp add: cm' truthy_def)
  qed
  show ?thesis
    unfolding restoredFrom_def s_def[symmetric] using g1 g2 g3 by simp
qed

lemma captured_is_restored:
  assumes "storeValid cm0"
  shows "restoredFrom (captureCurrentState cm0) cm0"
proof -
  have "distinct (map fst (cards cm0))" using assms by (simp add: storeValid_def)
  from captureCurrentState_cards[OF this] show ?thesis
    by (simp add: restoredFrom_def) (simp add: captureCurrentState_def)
qed

lemma undo_step:
  assumes "historyValid m" and "canUndo m"
  shows "\<exists>m' cm' sb'. undo (m, cm, sb) = Some (True, m', cm', sb') \<and> historyValid m'
           \<and> history m' = history m \<and> currentIndex m' = currentIndex m - 1
           \<and> nextId cm \<le> nextId cm'"
proof -
  have r: "0 \<le> currentIndex m - 1 \<and> currentIndex m - 1 < int (length (history m))"
    using assms by (simp add: canUndo_def historyValid_def)
  obtain m' cm' sb' where a: "applyState (Some (state (history m ! nat (currentIndex m - 1))))
      (m\<lparr>currentIndex := currentIndex m - 1\<rparr>, cm, sb) = (m', cm', sb')"
    by (metis prod_cases3)
  have u: "undo (m, cm, sb) = Some (True, m', cm', sb')"
    using assms(2) r a by (simp add: undo_def Let_def)
  have m': "m' = m\<lparr>currentIndex := currentIndex m - 1, isPerformingUndoRedo := False\<rparr>"
    using undo_manager[OF u] by simp
  show ?thesis using u r assms(1) applyState_store_nextId[OF a] unfolding m'
    by (simp add: historyValid_def)
qed

lemma redo_step:
  assumes "historyValid m" and "canRedo m"
  shows "\<exists>m' cm' sb'. redo (m, cm, sb) = Some (True, m', cm', sb') \<and> historyValid m'
           \<and> history m' = history m \<and> currentIndex m' = currentIndex m + 1
           \<and> nextId cm \<le> nextId cm'
           \<and> (m', cm', sb') = applyState (Some (state (history m ! nat (currentIndex m + 1))))
                 (m\<lparr>currentIndex := currentIndex m + 1\<rparr>, cm, sb)"
proof -
  have r: "0 \<le> currentIndex m + 1 \<and> currentIndex m + 1 < int (length (history m))"
    using assms by (simp add: canRedo_def historyValid_def)
  obtain m' cm' sb' where a: "applyState (Some (state (history m ! nat (currentIndex m + 1))))
      (m\<lparr>currentIndex := currentIndex m + 1\<rparr>, cm, sb) = (m', cm', sb')"
    by (metis prod_cases3)
  have u: "redo (m, cm, sb) = Some (True, m', cm', sb')"
    using assms(2) r a by (simp add: redo_def Let_def)
  have m': "m' = m\<lparr>currentIndex := currentIndex m + 1, isPerformingUndoRedo := False\<rparr>"
    using redo_manager[OF u] by simp
  show ?thesis using u r assms(1) applyState_store_nextId[OF a] a unfolding m'
    by (simp add: historyValid_def)
qed

lemma undo_chain:
  assumes "historyValid m" and "int k \<le> currentIndex m"
  shows "\<exists>m' cm' sb'. repeatOk k undo (m, cm, sb) = Some (m', cm', sb') \<and> historyValid m'
           \<and> history m' = history m \<and> currentIndex m' = currentIndex m - int k
           \<and> nextId cm \<le> nextId cm'"
  using assms
proof (induction k arbitrary: m cm sb)
  case 0
  then show ?case by simp
next
  case (Suc k)
  have cu: "canUndo m" using Suc.prems(2) by (simp add: canUndo_def)
  from undo_step[OF Suc.prems(1) cu, of cm sb]
  obtain m1 cm1 sb1 where u: "undo (m, cm, sb) = Some (True, m1, cm1, sb1)"
    and v: "historyValid m1" and h: "history m1 = history m"
    and i: "currentIndex m1 = currentIndex m - 1" and n: "nextId cm \<le> nextId cm1"
    by blast
  have k: "int k \<le> currentIndex m1" using Suc.prems(2) i by simp
  from Suc.IH[OF v k, of cm1 sb1]
  obtain m' cm' sb' where "repeatOk k undo (m1, cm1, sb1) = Some (m', cm', sb')"
    "historyValid m'" "history m' = history m1" "currentIndex m' = currentIndex m1 - int k"
    "nextId cm1 \<le> nextId cm'" by blast
  then show ?case using u h i n by simp
qed

lemma undo_chain_fails:
  assumes "historyValid m" and "currentIndex m < int k" and "0 \<le> currentIndex m"
  shows "repeatOk k undo (m, cm, sb) = None"
  using assms
proof (induction k arbitrary: m cm sb)
  case 0
  then show ?case by simp
next
  case (Suc k)
  show ?case
  proof (cases "canUndo m")
    case False
    then show ?thesis by (simp add: undo_def)
  next
    case True
    from undo_step[OF Suc.prems(1) True, of cm sb]
    obtain m1 cm1 sb1 where u: "undo (m, cm, sb) = Some (True, m1, cm1, sb1)"
      and v: "historyValid m1" and i: "currentIndex m1 = currentIndex m - 1"
      by blast
    have "currentIndex m1 < int k" using Suc.prems(2) i by simp
    moreover have "0 \<le> currentIndex m1" using True i by (simp add: canUndo_def)
    ultimately show ?thesis using Suc.IH[OF v, of cm1 sb1] u by simp
  qed
qed

lemma redo_chain:
  assumes "historyValid m" and "currentIndex m + int k \<le> int (length (history m)) - 1"
  shows "\<exists>m' cm' sb'. repeatOk k redo (m, cm, sb) = Some (m', cm', sb') \<and> historyValid m'
           \<and> history m' = history m \<and> currentIndex m' = currentIndex m + int k
           \<and> nextId cm \<le> nextId cm'
           \<and> (0 < k \<longrightarrow> (\<exists>mx cmx sbx. nextId cm \<le> nextId cmx
                 \<and> (m', cm', sb') = applyState (Some (state (history m ! nat (currentIndex m + int k))))
                       (mx, cmx, sbx)))"
  using assms
proof (induction k arbitrary: m cm sb)
  case 0
  then show ?case by simp
next
  case (Suc k)
  have cr: "canRedo m" using Suc.prems(2) by (simp add: canRedo_def)
  from redo_step[OF Suc.prems(1) cr, of cm sb]
  obtain m1 cm1 sb1 where u: "redo (m, cm, sb) = Some (True, m1, cm1, sb1)"
    and v: "historyValid m1" and h: "history m1 = history m"
    and i: "currentIndex m1 = currentIndex m + 1" and n: "nextId cm \<le> nextId cm1"
    and a: "(m1, cm1, sb1) = applyState (Some (state (history m ! nat (currentIndex m + 1))))
                 (m\<lparr>currentIndex := currentIndex m + 1\<rparr>, cm, sb)"
    by blast
  have k: "currentIndex m1 + int k \<le> int (length (history m1)) - 1"
    using Suc.prems(2) i h by simp
  from Suc.IH[OF v k, of cm1 sb1]
  obtain m' cm' sb' where r: "repeatOk k redo (m1, cm1, sb1) = Some (m', cm', sb')"
    "historyValid m'" "history m' = history m1" "currentIndex m' = currentIndex m1 + int k"
    "nextId cm1 \<le> nextId cm'"
    and x: "0 < k \<longrightarrow> (\<exists>mx cmx sbx. nextId cm1 \<le> nextId cmx
                 \<and> (m', cm', sb') = applyState (Some (state (history m1 ! nat (currentIndex m1 + int k))))
                       (mx, cmx, sbx))"
    by blast
  have e: "currentIndex m1 + int k = currentIndex m + int (Suc k)" using i by simp
  have last: "\<exists>mx cmx sbx. nextId cm \<le> nextId cmx
                 \<and> (m', cm', sb') = applyState (Some (state (history m ! nat (currentIndex m + int (Suc k)))))
                       (mx, cmx, sbx)"
  proof (cases "0 < k")
    case True
    with x obtain mx cmx sbx where "nextId cm1 \<le> nextId cmx"
      "(m', cm', sb') = applyState (Some (state (history m1 ! nat (currentIndex m1 + int k)))) (mx, cmx, sbx)"
      by blast
    then show ?thesis using n h e by (metis order_trans)
  next
    case False
    then have "k = 0" by simp
    then have "(m', cm', sb') = (m1, cm1, sb1)" using r(1) by simp
    then show ?thesis using a \<open>k = 0\<close> by (metis of_nat_1 One_nat_def order_refl)
  qed
  show ?case using u r h i n last by (simp add: e) 
qed

lemma saveState_length:
  assumes "historyValid m"
  shows "length (history (saveState tag d now cm m)) = min (nat (currentIndex m + 2)) maxHistorySize"
proof -
  define e where "e = \<lparr>operation = tag, timestamp = now, state = captureCurrentState cm, payload_data = d\<rparr>"
  define h1 where "h1 = (if currentIndex m < int (length (history m)) - 1
                  then slice0 (history m) (currentIndex m + 1) else history m)"
  have l1: "int (length h1) = currentIndex m + 1" and l2: "length h1 \<le> maxHistorySize"
    using assms by (auto simp add: h1_def historyValid_def slice0_def Let_def)
  have s: "saveState tag d now cm m =
     (if length (h1 @ [e]) > maxHistorySize
           then m\<lparr>history := tl (h1 @ [e]), currentIndex := currentIndex m + 1 - 1\<rparr>
           else m\<lparr>history := h1 @ [e], currentIndex := currentIndex m + 1\<rparr>)"
    using assms by (simp add: saveState_def historyValid_def Let_def h1_def e_def)
  show ?thesis unfolding s using l1 l2 by auto
qed

lemma saveState_last:
  assumes "\<not> isPerformingUndoRedo m"
  shows "state (last (history (saveState tag d now cm m))) = captureCurrentState cm"
proof -
  define e where "e = \<lparr>operation = tag, timestamp = now, state = captureCurrentState cm, payload_data = d\<rparr>"
  define h1 where "h1 = (if currentIndex m < int (length (history m)) - 1
                  then slice0 (history m) (currentIndex m + 1) else history m)"
  have s: "saveState tag d now cm m =
     (if length (h1 @ [e]) > maxHistorySize
           then m\<lparr>history := tl (h1 @ [e]), currentIndex := currentIndex m + 1 - 1\<rparr>
           else m\<lparr>history := h1 @ [e], currentIndex := currentIndex m + 1\<rparr>)"
    using assms by (simp add: saveState_def Let_def h1_def e_def)
  show ?thesis
  proof (cases "length (h1 @ [e]) > maxHistorySize")
    case True
    then have "h1 \<noteq> []" by (auto simp add: maxHistorySize_def)
    then have "tl (h1 @ [e]) = tl h1 @ [e]" by simp
    then show ?thesis using True unfolding s by (simp add: e_def)
  next
    case False
    then show ?thesis unfolding s by (simp add: e_def)
  qed
qed

lemma saveStates_snoc:
  "saveStates (xs @ [(tag, d, now, cm)]) m = saveState tag d now cm (saveStates xs m)"
  by (induction xs arbitrary: m) auto

lemma saveStates_at_end:
  assumes "historyValid m" and "currentIndex m = int (length (history m)) - 1"
  shows "historyValid (saveStates xs m)
       \<and> currentIndex (saveStates xs m) = int (length (history (saveStates xs m))) - 1
       \<and> length (history (saveStates xs m)) = min (length (history m) + length xs) maxHistorySize"
  using assms
proof (induction xs arbitrary: m)
  case Nil
  then show ?case by (simp add: historyValid_def)
next
  case (Cons x xs)
  obtain tag d now cm where x: "x = (tag, d, now, cm)" by (cases x)
  define m1 where "m1 = saveState tag d now cm m"
  have v1: "historyValid m1" and e1: "currentIndex m1 = int (length (history m1)) - 1"
    using saveState_valid[OF Cons.prems(1)] by (simp_all add: m1_def)
  have l1: "length (history m1) = min (length (history m) + 1) maxHistorySize"
    using saveState_length[OF Cons.prems(1), of tag d now cm] Cons.prems(2)
    by (simp add: m1_def nat_add_distrib)
  from Cons.IH[OF v1 e1] show ?case
    using l1 by (simp add: x m1_def)
qed

lemma saveStates_valid:
  assumes "historyValid m" and "xs \<noteq> []"
  shows "historyValid (saveStates xs m)
       \<and> currentIndex (saveStates xs m) = int (length (history (saveStates xs m))) - 1
       \<and> min (length xs) maxHistorySize \<le> length (history (saveStates xs m))"
proof -
  obtain x rest where xs: "xs = x # rest" using assms(2) by (cases xs) auto
  obtain tag d now cm where x: "x = (tag, d, now, cm)" by (cases x)
  define m1 where "m1 = saveState tag d now cm m"
  have v1: "historyValid m1" and e1: "currentIndex m1 = int (length (history m1)) - 1"
    and n1: "history m1 \<noteq> []"
    using saveState_valid[OF assms(1)] by (simp_all add: m1_def)
  have "1 \<le> length (history m1)" using n1 by (cases "history m1") auto
  then show ?thesis
    using saveStates_at_end[OF v1 e1, of rest] by (auto simp add: xs x m1_def)
qed


lemma update_subset_insert: "set (AList.update k v al) \<subseteq> insert (k, v) (set al)"
  by (induction al) auto

lemma createCard_shape:
  "\<exists>key c n. createCard d cm = cm\<lparr>cards := AList.update key c (cards cm), nextId := n\<rparr>
     \<and> key < n \<and> nextId cm \<le> n \<and> (cid c = 0 \<or> cid c = key)"
proof -
  define fresh where "fresh = (\<not> truthy (init_id d))"
  define key where "key = (if fresh then nextId cm else the (init_id d))"
  define n1 where "n1 = (if fresh then nextId cm + 1 else nextId cm)"
  define c where "c = \<lparr>cid = (case init_id d of None \<Rightarrow> key | Some i \<Rightarrow> i),
                      card_x = (case init_x d of None \<Rightarrow> 0 | Some v \<Rightarrow> v),
                      card_y = (case init_y d of None \<Rightarrow> 0 | Some v \<Rightarrow> v),
                      width = (case init_width d of None \<Rightarrow> 300 | Some v \<Rightarrow> v),
                      height = (case init_height d of None \<Rightarrow> Auto | Some h \<Rightarrow> h),
                      content = (case init_content d of
                                   None \<Rightarrow> ''<p>New card content...</p>''
                                 | Some t \<Rightarrow> t)\<rparr>"
  define n where "n = (if key \<ge> n1 then key + 1 else n1)"
  have e: "createCard d cm = cm\<lparr>cards := AList.update key c (cards cm), nextId := n\<rparr>"
    unfolding createCard_def Let_def n_def c_def n1_def key_def fresh_def by (rule refl)
  have k: "key < n" by (simp add: n_def)
  have m: "nextId cm \<le> n" by (simp add: n_def n1_def)
  have i: "cid c = 0 \<or> cid c = key"
    by (cases "init_id d") (auto simp add: c_def key_def fresh_def truthy_def)
  show ?thesis using e k m i by blast
qed

lemma createCard_storeValid:
  assumes "storeValid cm"
  shows "storeValid (createCard d cm)"
proof -
  from createCard_shape[of d cm] obtain key c n where
    e: "createCard d cm = cm\<lparr>cards := AList.update key c (cards cm), nextId := n\<rparr>"
    and k: "key < n" and n: "nextId cm \<le> n" and i: "cid c = 0 \<or> cid c = key"
    by blast
  have d: "distinct (map fst (AList.update key c (cards cm)))"
    using assms by (simp add: storeValid_def distinct_update)
  have "\<forall>p\<in>set (AList.update key c (cards cm)). fst p < n \<and> (cid (snd p) = 0 \<or> cid (snd p) = fst p)"
  proof
    fix p assume "p \<in> set (AList.update key c (cards cm))"
    then have "p = (key, c) \<or> p \<in> set (cards cm)"
      using update_subset_insert[of key c "cards cm"] by auto
    then show "fst p < n \<and> (cid (snd p) = 0 \<or> cid (snd p) = fst p)"
      using assms k n i by (auto simp add: storeValid_def list_all_iff)
  qed
  then show ?thesis
    unfolding e using d by (auto simp add: storeValid_def list_all_iff)
qed

text \<open>
  What \<open>saveState\<close> does to a valid history: it keeps the entries up to the current
  index, appends the new entry, and drops the oldest entry if that made 51.
\<close>

lemma saveState_truncates:
  assumes "historyValid m"
  shows "saveState tag d now cm m =
     (let h2 = take (nat (currentIndex m + 1)) (history m)
                @ [\<lparr>operation = tag, timestamp = now, state = captureCurrentState cm,
                    payload_data = d\<rparr>]
      in if length h2 > maxHistorySize
         then m\<lparr>history := tl h2, currentIndex := currentIndex m\<rparr>
         else m\<lparr>history := h2, currentIndex := currentIndex m + 1\<rparr>)"
proof -
  have "(if currentIndex m < int (length (history m)) - 1
         then slice0 (history m) (currentIndex m + 1) else history m)
       = take (nat (currentIndex m + 1)) (history m)"
    using assms by (auto simp add: historyValid_def slice0_def Let_def)
  then show ?thesis
    using assms by (simp add: saveState_def Let_def historyValid_def)
qed

subsection \<open>The history claims\<close>

text \<open>
  C3: from the constructor's state, after any sequence of saveState, undo, redo,
  clearHistory and initialize (with any changes to the card store and the panel in
  between) every operation has returned, the history holds at most \<open>maxHistorySize\<close> = 50
  entries and the index lies in [-1, length - 1]. In the state so reached undo is
  available exactly when the index is above 0: \<open>canUndo\<close> says so, and \<open>undo()\<close> returns
  true and moves the index down by one when the index is above 0, and returns false and
  leaves the index otherwise. Likewise redo is available exactly when the index is below
  length - 1: \<open>canRedo\<close> says so, and \<open>redo()\<close> returns true and moves the index up by
  one in that case, and returns false and leaves the index otherwise. Neither changes the
  history. When saveState appends with the index on the 50th entry, the oldest entry is
  dropped, the new one goes to the end and the index stays on the last entry.
\<close>

theorem history_bounded:
  shows "maxHistorySize = 50
    \<and> (\<exists>m cm sb. run acts (UndoRedoManager_constructor, cm0, sb0) = Some (m, cm, sb)
          \<and> length (history m) \<le> maxHistorySize
          \<and> - 1 \<le> currentIndex m \<and> currentIndex m \<le> int (length (history m)) - 1
          \<and> (canUndo m \<longleftrightarrow> currentIndex m > 0)
          \<and> (canRedo m \<longleftrightarrow> currentIndex m < int (length (history m)) - 1)
          \<and> (\<exists>m' cm' sb'. undo (m, cm, sb) = Some (currentIndex m > 0, m', cm', sb')
                \<and> history m' = history m
                \<and> currentIndex m' = (if currentIndex m > 0 then currentIndex m - 1
                                      else currentIndex m))
          \<and> (\<exists>m' cm' sb'. redo (m, cm, sb)
                   = Some (currentIndex m < int (length (history m)) - 1, m', cm', sb')
                \<and> history m' = history m
                \<and> currentIndex m' = (if currentIndex m < int (length (history m)) - 1
                                      then currentIndex m + 1 else currentIndex m)))
    \<and> (historyValid m1 \<and> currentIndex m1 = int maxHistorySize - 1 \<longrightarrow>
          saveState tag d now cm1 m1 =
            m1\<lparr>history := tl (history m1)
                  @ [\<lparr>operation = tag, timestamp = now, state = captureCurrentState cm1,
                      payload_data = d\<rparr>],
               currentIndex := currentIndex m1\<rparr>)"
proof -
  from run_valid[OF constructor_valid, of acts cm0 sb0]
  obtain m cm sb where r: "run acts (UndoRedoManager_constructor, cm0, sb0) = Some (m, cm, sb)"
    and v: "historyValid m" by blast
  have u: "\<exists>m' cm' sb'. undo (m, cm, sb) = Some (currentIndex m > 0, m', cm', sb')
                \<and> history m' = history m
                \<and> currentIndex m' = (if currentIndex m > 0 then currentIndex m - 1
                                      else currentIndex m)"
    using undo_valid[OF v, of cm sb] unfolding canUndo_def by blast
  have rd: "\<exists>m' cm' sb'. redo (m, cm, sb)
                   = Some (currentIndex m < int (length (history m)) - 1, m', cm', sb')
                \<and> history m' = history m
                \<and> currentIndex m' = (if currentIndex m < int (length (history m)) - 1
                                      then currentIndex m + 1 else currentIndex m)"
    using redo_valid[OF v, of cm sb] unfolding canRedo_def by blast
  have b: "length (history m) \<le> maxHistorySize
          \<and> - 1 \<le> currentIndex m \<and> currentIndex m \<le> int (length (history m)) - 1
          \<and> (canUndo m \<longleftrightarrow> currentIndex m > 0)
          \<and> (canRedo m \<longleftrightarrow> currentIndex m < int (length (history m)) - 1)"
    using v by (simp add: historyValid_def canUndo_def canRedo_def)
  have e: "historyValid m1 \<and> currentIndex m1 = int maxHistorySize - 1 \<longrightarrow>
          saveState tag d now cm1 m1 =
            m1\<lparr>history := tl (history m1)
                  @ [\<lparr>operation = tag, timestamp = now, state = captureCurrentState cm1,
                      payload_data = d\<rparr>],
               currentIndex := currentIndex m1\<rparr>"
    using saveState_evicts[of m1 tag d now cm1] by simp
  have c: "maxHistorySize = 50" by (simp add: maxHistorySize_def)
  show ?thesis
    using r b u rd e c by blast
qed


text \<open>
  Witness: a session that saves, undoes, redoes, clears and initialises again; and a
  full history of 50 entries with the index on the last one.
\<close>

theorem history_bounded_witness:
  "historyValid
     \<lparr>history = replicate 50 \<lparr>operation = ''create_card'', timestamp = 0,
                 state = captureCurrentState boardA, payload_data = No_payload\<rparr>,
      currentIndex = 49, isPerformingUndoRedo = False, contentChangeTimeout = None,
      pendingDragOperation = None\<rparr>
   \<and> length (history (saveState ''delete_cards'' (Card_payload [2]) 7 boardAB
        \<lparr>history = replicate 50 \<lparr>operation = ''create_card'', timestamp = 0,
                 state = captureCurrentState boardA, payload_data = No_payload\<rparr>,
         currentIndex = 49, isPerformingUndoRedo = False, contentChangeTimeout = None,
         pendingDragOperation = None\<rparr>)) = 50
   \<and> currentIndex (saveState ''delete_cards'' (Card_payload [2]) 7 boardAB
        \<lparr>history = replicate 50 \<lparr>operation = ''create_card'', timestamp = 0,
                 state = captureCurrentState boardA, payload_data = No_payload\<rparr>,
         currentIndex = 49, isPerformingUndoRedo = False, contentChangeTimeout = None,
         pendingDragOperation = None\<rparr>) = 49
   \<and> (\<exists>m cm sb.
         run [Initialize 0, Edit boardAB panelClosed, Save ''create_card'' No_payload 1, Undo,
              Redo, Undo, Save ''delete_cards'' (Card_payload [2]) 2, Redo, ClearHistory,
              Initialize 3]
           (UndoRedoManager_constructor, boardA, panelClosed) = Some (m, cm, sb)
         \<and> length (history m) \<le> maxHistorySize
         \<and> - 1 \<le> currentIndex m \<and> currentIndex m \<le> int (length (history m)) - 1
         \<and> (\<exists>m' cm' sb'. undo (m, cm, sb) = Some (currentIndex m > 0, m', cm', sb'))
         \<and> (\<exists>m' cm' sb'. redo (m, cm, sb)
                  = Some (currentIndex m < int (length (history m)) - 1, m', cm', sb')))"
proof -
  define m50 where "m50 =
     \<lparr>history = replicate 50 \<lparr>operation = ''create_card'', timestamp = 0,
                 state = captureCurrentState boardA, payload_data = No_payload\<rparr>,
      currentIndex = 49, isPerformingUndoRedo = False, contentChangeTimeout = None,
      pendingDragOperation = None\<rparr>"
  have v: "historyValid m50"
    by (simp add: m50_def historyValid_def maxHistorySize_def)
  have i: "currentIndex m50 = int maxHistorySize - 1"
    by (simp add: m50_def maxHistorySize_def)
  have l: "length (history m50) = 50" by (simp add: m50_def)
  show ?thesis
    unfolding m50_def[symmetric]
    using v i l
      history_bounded[where acts = "[Initialize 0, Edit boardAB panelClosed,
              Save ''create_card'' No_payload 1, Undo,
              Redo, Undo, Save ''delete_cards'' (Card_payload [2]) 2, Redo, ClearHistory,
              Initialize 3]" and ?cm0.0 = boardA and ?sb0.0 = panelClosed and ?m1.0 = m50
          and tag = "''delete_cards''" and d = "Card_payload [2]" and now = 7 and ?cm1.0 = boardAB]
    by auto
qed

text \<open>
  C2: whatever the history holds, after saveState(A), a successful undo() and
  saveState(B): the undo moved the index down by one and changed nothing else of the
  manager; saveState(B) kept the entries up to that index, discarded every entry after it
  (the entry of A among them) and appended the entry of B, which is now the last entry
  and the current one, the history being as long as it was after saveState(A); redo is
  unavailable, and redo() returns false and leaves everything as it is. The truncation
  is what saveState does whenever the index of a valid history is not on its last entry:
  the result is the entries up to the index followed by the new entry.
\<close>

theorem redo_unavailable_after_save:
  assumes "historyValid m"
    and "undo (saveState tagA dA nowA cmA m, cm1, sb1) = Some (True, m2, cm2, sb2)"
  shows "m2 = (saveState tagA dA nowA cmA m)
                \<lparr>currentIndex := currentIndex (saveState tagA dA nowA cmA m) - 1\<rparr>
       \<and> saveState tagB dB nowB cmB m2 =
           m2\<lparr>history := take (nat (currentIndex m2 + 1)) (history m2)
                  @ [\<lparr>operation = tagB, timestamp = nowB, state = captureCurrentState cmB,
                      payload_data = dB\<rparr>],
               currentIndex := currentIndex m2 + 1\<rparr>
       \<and> length (history (saveState tagB dB nowB cmB m2))
           = length (history (saveState tagA dA nowA cmA m))
       \<and> (historyValid mX \<and> currentIndex mX < int (length (history mX)) - 1 \<longrightarrow>
            saveState tagB dB nowB cmB mX =
              mX\<lparr>history := take (nat (currentIndex mX + 1)) (history mX)
                     @ [\<lparr>operation = tagB, timestamp = nowB, state = captureCurrentState cmB,
                         payload_data = dB\<rparr>],
                  currentIndex := currentIndex mX + 1\<rparr>)
       \<and> \<not> canRedo (saveState tagB dB nowB cmB m2)
       \<and> redo (saveState tagB dB nowB cmB m2, cm3, sb3)
           = Some (False, saveState tagB dB nowB cmB m2, cm3, sb3)"
proof -
  define mA where "mA = saveState tagA dA nowA cmA m"
  have v1: "historyValid mA" and iA: "currentIndex mA = int (length (history mA)) - 1"
    using saveState_valid[OF assms(1)] by (simp_all add: mA_def)
  have u: "undo (mA, cm1, sb1) = Some (True, m2, cm2, sb2)"
    using assms(2) by (simp add: mA_def)
  from undo_valid[OF v1, of cm1 sb1] u
  have v2: "historyValid m2" and h2: "history m2 = history mA"
    and i2: "currentIndex m2 = currentIndex mA - 1" and cu: "canUndo mA"
    by auto
  have f: "\<not> isPerformingUndoRedo mA" using v1 by (simp add: historyValid_def)
  have e1: "m2 = mA\<lparr>currentIndex := currentIndex mA - 1\<rparr>"
    using undo_manager[OF u] f by simp
  have trunc: "saveState tagB dB nowB cmB mX =
              mX\<lparr>history := take (nat (currentIndex mX + 1)) (history mX)
                     @ [\<lparr>operation = tagB, timestamp = nowB, state = captureCurrentState cmB,
                         payload_data = dB\<rparr>],
                  currentIndex := currentIndex mX + 1\<rparr>"
    if "historyValid mX" "currentIndex mX < int (length (history mX)) - 1" for mX
  proof -
    have "\<not> length (take (nat (currentIndex mX + 1)) (history mX)
                @ [\<lparr>operation = tagB, timestamp = nowB, state = captureCurrentState cmB,
                    payload_data = dB\<rparr>]) > maxHistorySize"
      using that unfolding historyValid_def by (simp del: One_nat_def) linarith
    then show ?thesis
      unfolding saveState_truncates[OF that(1), of tagB dB nowB cmB] Let_def
      by (simp only: if_False)
  qed
  have lt: "currentIndex m2 < int (length (history m2)) - 1"
    using i2 h2 iA by simp
  note e2 = trunc[OF v2 lt]
  have pos: "0 < currentIndex mA" using cu by (simp add: canUndo_def)
  have e3: "length (history (saveState tagB dB nowB cmB m2)) = length (history mA)"
    using pos i2 h2 iA by (simp add: e2)
  have "currentIndex (saveState tagB dB nowB cmB m2)
      = int (length (history (saveState tagB dB nowB cmB m2))) - 1"
    using saveState_valid[OF v2] by simp
  then have nr: "\<not> canRedo (saveState tagB dB nowB cmB m2)"
    by (simp add: canRedo_def)
  then have r: "redo (saveState tagB dB nowB cmB m2, cm3, sb3)
           = Some (False, saveState tagB dB nowB cmB m2, cm3, sb3)"
    by (simp add: redo_def)
  show ?thesis
    using e1 e2 e3 trunc nr r unfolding mA_def by blast
qed


text \<open>
  Witness: the history after \<open>initialize\<close>, a save with cards A and B on the board, an
  undo back to the initial state and a new save.
\<close>

theorem redo_unavailable_after_save_witness:
  "historyValid (initialize 0 boardA UndoRedoManager_constructor)
   \<and> (\<exists>m2 cm2 sb2.
         undo (saveState ''create_card'' No_payload 1 boardAB
                 (initialize 0 boardA UndoRedoManager_constructor), boardAB, panelClosed)
           = Some (True, m2, cm2, sb2)
         \<and> historyValid m2 \<and> currentIndex m2 < int (length (history m2)) - 1
         \<and> map operation (history m2) = [''initial_state'', ''create_card'']
         \<and> currentIndex m2 = 0
         \<and> map operation (history (saveState ''delete_cards'' (Card_payload [2]) 2 cm2 m2))
             = [''initial_state'', ''delete_cards'']
         \<and> currentIndex (saveState ''delete_cards'' (Card_payload [2]) 2 cm2 m2) = 1
         \<and> redo (saveState ''delete_cards'' (Card_payload [2]) 2 cm2 m2, cm2, sb2)
           = Some (False, saveState ''delete_cards'' (Card_payload [2]) 2 cm2 m2, cm2, sb2))"
proof -
  define m0 where "m0 = initialize 0 boardA UndoRedoManager_constructor"
  define mA where "mA = saveState ''create_card'' No_payload 1 boardAB m0"
  have v: "historyValid m0"
    unfolding m0_def initialize_def using saveState_valid[OF constructor_valid] by simp
  have v1: "historyValid mA"
    unfolding mA_def using saveState_valid[OF v] by simp
  have hA: "map operation (history mA) = [''initial_state'', ''create_card'']"
    and iA: "currentIndex mA = 1"
    by (simp_all add: mA_def m0_def initialize_def saveState_def UndoRedoManager_constructor_def
        Let_def maxHistorySize_def)
  have cu: "canUndo mA" using iA by (simp add: canUndo_def)
  from undo_step[OF v1 cu, of boardAB panelClosed]
  obtain m2 cm2 sb2 where
    u: "undo (mA, boardAB, panelClosed) = Some (True, m2, cm2, sb2)" by blast
  from undo_valid[OF v1, of boardAB panelClosed] u
  have v2: "historyValid m2" by auto
  note t = redo_unavailable_after_save[OF v u[unfolded mA_def],
      of "''delete_cards''" "Card_payload [2]" 2 cm2 m2 cm2 sb2, folded mA_def]
  have e1: "m2 = mA\<lparr>currentIndex := currentIndex mA - 1\<rparr>" using t by blast
  have h2: "map operation (history m2) = [''initial_state'', ''create_card'']"
    and i2: "currentIndex m2 = 0"
    using hA iA by (simp_all add: e1)
  have "length (history m2) = 2" using arg_cong[OF h2, of length] by simp
  then have lt: "currentIndex m2 < int (length (history m2)) - 1"
    using i2 by simp
  have e2: "saveState ''delete_cards'' (Card_payload [2]) 2 cm2 m2 =
           m2\<lparr>history := take (nat (currentIndex m2 + 1)) (history m2)
                  @ [\<lparr>operation = ''delete_cards'', timestamp = 2,
                      state = captureCurrentState cm2, payload_data = Card_payload [2]\<rparr>],
               currentIndex := currentIndex m2 + 1\<rparr>"
    using t v2 lt by blast
  have h3: "map operation (history (saveState ''delete_cards'' (Card_payload [2]) 2 cm2 m2))
             = [''initial_state'', ''delete_cards'']"
    using h2 i2 by (simp add: e2 take_map[symmetric])
  have i3: "currentIndex (saveState ''delete_cards'' (Card_payload [2]) 2 cm2 m2) = 1"
    using i2 by (simp add: e2)
  have r: "redo (saveState ''delete_cards'' (Card_payload [2]) 2 cm2 m2, cm2, sb2)
           = Some (False, saveState ''delete_cards'' (Card_payload [2]) 2 cm2 m2, cm2, sb2)"
    using t by blast
  show ?thesis
    using v u v2 lt h2 i2 h3 i3 r unfolding mA_def m0_def
    by - (intro conjI exI[of _ m2] exI[of _ cm2] exI[of _ sb2], assumption+)
qed

text \<open>
  C10: outside a restore, undo() and redo() change nothing of the history manager but
  the current index: the history list (length, order, entries), the pending drag and
  the pending content timer are what they were. A restore leaves the manager as it
  found it, because while the flag is raised saveState and saveContentState return at
  once; this covers the content change that \<open>Sidebar.close\<close> flushes in the middle of
  \<open>applyState\<close>.
\<close>

theorem undo_redo_only_move_index:
  assumes "\<not> isPerformingUndoRedo m"
  shows "(undo (m, cm, sb) = Some (ok, m', cm', sb') \<longrightarrow>
            history m' = history m \<and> m' = m\<lparr>currentIndex := currentIndex m'\<rparr>)
       \<and> (redo (m, cm, sb) = Some (ok, m', cm', sb') \<longrightarrow>
            history m' = history m \<and> m' = m\<lparr>currentIndex := currentIndex m'\<rparr>)
       \<and> fst (applyState st (m, cm, sb)) = m
       \<and> saveState tag d now cm (m\<lparr>isPerformingUndoRedo := True\<rparr>) = m\<lparr>isPerformingUndoRedo := True\<rparr>
       \<and> saveContentState cardId old new (m\<lparr>isPerformingUndoRedo := True\<rparr>)
           = m\<lparr>isPerformingUndoRedo := True\<rparr>"
proof -
  have f: "m\<lparr>isPerformingUndoRedo := False\<rparr> = m" using assms by simp
  have u: "undo (m, cm, sb) = Some (ok, m', cm', sb') \<Longrightarrow>
            history m' = history m \<and> m' = m\<lparr>currentIndex := currentIndex m'\<rparr>"
    using undo_manager[of m cm sb ok m' cm' sb'] assms by (cases ok) auto
  have r: "redo (m, cm, sb) = Some (ok, m', cm', sb') \<Longrightarrow>
            history m' = history m \<and> m' = m\<lparr>currentIndex := currentIndex m'\<rparr>"
    using redo_manager[of m cm sb ok m' cm' sb'] assms by (cases ok) auto
  show ?thesis
    using u r applyState_manager[of st m cm sb] f
    by (simp add: saveState_def saveContentState_def)
qed

text \<open>
  Witness: an undo with the panel holding an unflushed edit; the snapshot restored has
  no active card, so \<open>applyState\<close> closes the panel and the flush runs into the flag.
\<close>

theorem undo_redo_only_move_index_witness:
  "\<not> isPerformingUndoRedo
       (saveStates [(''initial_state'', No_payload, 0, boardA),
                    (''create_card'', No_payload, 1, boardAB)] UndoRedoManager_constructor)
   \<and> (\<exists>m' cm' sb'.
         undo (saveStates [(''initial_state'', No_payload, 0, boardA),
                    (''create_card'', No_payload, 1, boardAB)] UndoRedoManager_constructor,
               boardAB, panelEditing) = Some (True, m', cm', sb')
         \<and> history m' = history
              (saveStates [(''initial_state'', No_payload, 0, boardA),
                    (''create_card'', No_payload, 1, boardAB)] UndoRedoManager_constructor)
         \<and> contentChangeTimeout m' = None
         \<and> currentIndex m' = 0)"
proof -
  define m where "m = saveStates [(''initial_state'', No_payload, 0, boardA),
                    (''create_card'', No_payload, 1, boardAB)] UndoRedoManager_constructor"
  have v: "historyValid m" and e: "currentIndex m = int (length (history m)) - 1"
    and l: "length (history m) = 2"
    using saveStates_at_end[OF constructor_valid, of "[(''initial_state'', No_payload, 0, boardA),
                    (''create_card'', No_payload, 1, boardAB)]"]
    by (simp_all add: m_def UndoRedoManager_constructor_def maxHistorySize_def)
  have idle: "\<not> isPerformingUndoRedo m" using v by (simp add: historyValid_def)
  have t: "contentChangeTimeout m = None"
    by (simp add: m_def saveState_def UndoRedoManager_constructor_def Let_def maxHistorySize_def)
  have cu: "canUndo m" using e l by (simp add: canUndo_def)
  from undo_step[OF v cu, of boardAB panelEditing]
  obtain m' cm' sb' where u: "undo (m, boardAB, panelEditing) = Some (True, m', cm', sb')"
    and i: "currentIndex m' = currentIndex m - 1" by blast
  from undo_redo_only_move_index[OF idle, of boardAB panelEditing True m' cm' sb'] u
  have h: "history m' = history m" and m': "m' = m\<lparr>currentIndex := currentIndex m'\<rparr>"
    by simp_all
  have "contentChangeTimeout m' = None" using m' t by (metis undoRedoManager.select_convs(4) undoRedoManager.surjective undoRedoManager.update_convs(2))
  then show ?thesis
    unfolding m_def[symmetric] using idle u h i e l by auto
qed

text \<open>
  C1 (as stated: for every sequence of N saveState calls, N - 1 undos and N - 1 redos
  succeed at every step and restore the latest snapshot: cards, selection, active id).
  Two things stand against it. The history keeps 50 entries: after 51 saves the 50th
  undo finds the index at 0 and returns false. And a restore takes the active id over
  only when a card with that id exists: for the snapshot of \<open>boardStale\<close>, whose
  active id 5 names no card, one undo and one redo leave the active id \<open>null\<close>.
\<close>

theorem undo_redo_round_trip_counterexample:
  "repeatOk (51 - 1) undo
     (saveStates (replicate 51 (''create_card'', No_payload, 0, boardA)) UndoRedoManager_constructor,
      boardA, panelClosed) = None
   \<and> map_option
       (\<lambda>(mF, cmF, sbF).
          (activeCard cmF, snap_activeCard (state (history mF ! nat (currentIndex mF)))))
       (Option.bind
          (repeatOk (2 - 1) undo
             (saveStates [(''import_data'', No_payload, 0, boardAB),
                          (''create_card'', No_payload, 1, boardStale)]
                UndoRedoManager_constructor, boardStale, panelClosed))
          (repeatOk (2 - 1) redo))
     = Some (None, Some 5)"
proof -
  define m where "m = saveStates (replicate 51 (''create_card'', No_payload, 0, boardA))
     UndoRedoManager_constructor"
  have v: "historyValid m" and e: "currentIndex m = int (length (history m)) - 1"
    and l: "length (history m) = 50"
    using saveStates_at_end[OF constructor_valid,
        of "replicate 51 (''create_card'', No_payload, 0, boardA)"]
    by (simp_all add: m_def UndoRedoManager_constructor_def maxHistorySize_def)
  have "repeatOk 50 undo (m, boardA, panelClosed) = None"
    by (rule undo_chain_fails[OF v]) (simp_all add: e l)
  then have a: "repeatOk (51 - 1) undo (m, boardA, panelClosed) = None" by simp
  have b: "map_option
       (\<lambda>(mF, cmF, sbF).
          (activeCard cmF, snap_activeCard (state (history mF ! nat (currentIndex mF)))))
       (Option.bind
          (repeatOk (2 - 1) undo
             (saveStates [(''import_data'', No_payload, 0, boardAB),
                          (''create_card'', No_payload, 1, boardStale)]
                UndoRedoManager_constructor, boardStale, panelClosed))
          (repeatOk (2 - 1) redo))
     = Some (None, Some 5)"
    by code_simp
  show ?thesis using a b unfolding m_def by simp
qed

text \<open>
  C1 (amended): take a history manager in a valid state and N saveState calls in a row,
  1 \<le> N \<le> 50, where the store the Nth call captures is one the card store builds (one
  entry per key, keys below the id counter, a card with a non-zero id stored under that
  id). Whatever the store and the panel hold when the first undo is called, provided
  the store's id counter is not below the captured store's (the counter never
  decreases while cards are created): N - 1 undos followed by N - 1 redos all return
  true; history and index end where they were, with the index on the Nth snapshot; and
  for N \<ge> 2 the store then holds exactly the card records of that snapshot (id, x, y,
  width, height, content), exactly its set of selected ids, and its active id whenever
  that is \<open>null\<close> or the non-zero id of one of its cards. For N = 1 nothing is undone
  or redone, and store and panel are left as they are.
\<close>

theorem undo_redo_round_trip:
  assumes "historyValid m0"
    and "saves = before @ [(tag, d, now, cmN)]"
    and "length saves \<le> maxHistorySize"
    and "storeValid cmN"
    and "nextId cmN \<le> nextId cmL"
  shows "\<exists>s1 mF cmF sbF.
           repeatOk (length saves - 1) undo (saveStates saves m0, cmL, sbL) = Some s1
         \<and> repeatOk (length saves - 1) redo s1 = Some (mF, cmF, sbF)
         \<and> history mF = history (saveStates saves m0)
         \<and> currentIndex mF = currentIndex (saveStates saves m0)
         \<and> state (history mF ! nat (currentIndex mF)) = captureCurrentState cmN
         \<and> (2 \<le> length saves \<longrightarrow> restoredFrom (captureCurrentState cmN) cmF)
         \<and> (length saves = 1 \<longrightarrow> cmF = cmL \<and> sbF = sbL)"
proof -
  define m where "m = saveStates saves m0"
  define k where "k = length saves - 1"
  have ne: "saves \<noteq> []" using assms(2) by simp
  from saveStates_valid[OF assms(1) ne]
  have v: "historyValid m" and ie: "currentIndex m = int (length (history m)) - 1"
    and ln: "length saves \<le> length (history m)"
    using assms(3) by (simp_all add: m_def)
  have idle: "\<not> isPerformingUndoRedo (saveStates before m0)"
    using saveStates_valid[OF assms(1), of before] assms(1)
    by (cases "before = []") (auto simp add: historyValid_def)
  have lst: "state (last (history m)) = captureCurrentState cmN"
    using saveState_last[OF idle] by (simp add: m_def assms(2) saveStates_snoc)
  have hne: "history m \<noteq> []" using ln ne by auto
  have k1: "int k \<le> currentIndex m" using ie ln ne by (cases saves) (auto simp add: k_def)
  from undo_chain[OF v k1, of cmL sbL]
  obtain m1 cm1 sb1 where u: "repeatOk k undo (m, cmL, sbL) = Some (m1, cm1, sb1)"
    and v1: "historyValid m1" and h1: "history m1 = history m"
    and i1: "currentIndex m1 = currentIndex m - int k" and n1: "nextId cmL \<le> nextId cm1"
    by blast
  have k2: "currentIndex m1 + int k \<le> int (length (history m1)) - 1"
    using i1 h1 ie by simp
  from redo_chain[OF v1 k2, of cm1 sb1]
  obtain mF cmF sbF where r: "repeatOk k redo (m1, cm1, sb1) = Some (mF, cmF, sbF)"
    and hF: "history mF = history m1" and iF: "currentIndex mF = currentIndex m1 + int k"
    and x: "0 < k \<longrightarrow> (\<exists>mx cmx sbx. nextId cm1 \<le> nextId cmx
                 \<and> (mF, cmF, sbF) = applyState (Some (state (history m1 ! nat (currentIndex m1 + int k))))
                       (mx, cmx, sbx))"
    by blast
  have iF': "currentIndex mF = currentIndex m" using iF i1 by simp
  have "nat (int (length (history m)) - 1) = length (history m) - 1" by linarith
  then have at: "history m ! nat (currentIndex m) = last (history m)"
    using ie hne by (simp add: last_conv_nth)
  have st: "state (history mF ! nat (currentIndex mF)) = captureCurrentState cmN"
    using lst at by (simp add: hF h1 iF')
  have rs: "restoredFrom (captureCurrentState cmN) cmF" if "2 \<le> length saves"
  proof -
    from that have "0 < k" by (simp add: k_def)
    with x obtain mx cmx sbx where nx: "nextId cm1 \<le> nextId cmx"
      and a: "(mF, cmF, sbF) = applyState (Some (state (history m1 ! nat (currentIndex m1 + int k)))) (mx, cmx, sbx)"
      by blast
    have "state (history m1 ! nat (currentIndex m1 + int k)) = captureCurrentState cmN"
      using lst at i1 by (simp add: h1)
    then have a': "applyState (Some (captureCurrentState cmN)) (mx, cmx, sbx) = (mF, cmF, sbF)"
      using a by simp
    have "nextId cmN \<le> nextId cmx" using assms(5) n1 nx by simp
    from applyState_restores[OF assms(4) this a'] show ?thesis .
  qed
  have un: "cmF = cmL \<and> sbF = sbL" if "length saves = 1"
  proof -
    from that have "k = 0" by (simp add: k_def)
    then show ?thesis using u r by simp
  qed
  have hFm: "history mF = history m" using hF h1 by simp
  show ?thesis
    unfolding m_def[symmetric] k_def[symmetric]
    by (rule exI[of _ "(m1, cm1, sb1)"], rule exI[of _ mF], rule exI[of _ cmF],
        rule exI[of _ sbF]) (use u r hFm iF' st rs un in simp)
qed

text \<open>
  Witness: two saves from the constructor's state, the second capturing cards A and B
  with B selected and active; by the time of the undo, card C has been added and A
  selected too, and the panel holds an unsaved edit. One undo and one redo bring back
  the two cards, the selection of B alone and B as the active card. And a single save,
  after which nothing is undone: the store stays as it is.
\<close>

theorem undo_redo_round_trip_witness:
  "historyValid UndoRedoManager_constructor
   \<and> storeValid boardAB
   \<and> nextId boardAB \<le> nextId boardThree
   \<and> activeRestorable (captureCurrentState boardAB)
   \<and> length (cards boardThree) = 3
   \<and> (\<exists>s1 mF cmF sbF.
         repeatOk (2 - 1) undo
           (saveStates [(''initial_state'', No_payload, 0, boardA),
                        (''create_card'', No_payload, 1, boardAB)] UndoRedoManager_constructor,
            boardThree, panelEditing) = Some s1
       \<and> repeatOk (2 - 1) redo s1 = Some (mF, cmF, sbF)
       \<and> restoredFrom (captureCurrentState boardAB) cmF
       \<and> length (cards cmF) = 2
       \<and> set (selectedCards cmF) = {2}
       \<and> activeCard cmF = Some 2)
   \<and> storeValid boardA
   \<and> nextId boardA \<le> nextId boardAB
   \<and> (\<exists>s1 mF cmF sbF.
         repeatOk (1 - 1) undo
           (saveStates [(''initial_state'', No_payload, 0, boardA)] UndoRedoManager_constructor,
            boardAB, panelEditing) = Some s1
       \<and> repeatOk (1 - 1) redo s1 = Some (mF, cmF, sbF)
       \<and> cmF = boardAB \<and> sbF = panelEditing)"
proof -
  have svA: "storeValid boardA"
    by (simp add: storeValid_def boardA_def CardManager_constructor_def cardA_def)
  have nxA: "nextId boardA \<le> nextId boardAB"
    by (simp add: boardA_def boardAB_def)
  from undo_redo_round_trip[OF constructor_valid _ _ svA nxA,
      where before = "[]" and tag = "''initial_state''" and d = No_payload and now = 0
      and saves = "[(''initial_state'', No_payload, 0, boardA)]" and sbL = panelEditing]
  have one: "\<exists>s1 mF cmF sbF.
         repeatOk (1 - 1) undo
           (saveStates [(''initial_state'', No_payload, 0, boardA)] UndoRedoManager_constructor,
            boardAB, panelEditing) = Some s1
       \<and> repeatOk (1 - 1) redo s1 = Some (mF, cmF, sbF)
       \<and> cmF = boardAB \<and> sbF = panelEditing"
    by (auto simp add: maxHistorySize_def)
  have sv: "storeValid boardAB"
    by (simp add: storeValid_def boardAB_def CardManager_constructor_def cardA_def cardB_def)
  have nx: "nextId boardAB \<le> nextId boardThree"
    by (simp add: boardAB_def boardThree_def)
  have l3: "length (cards boardThree) = 3" by (simp add: boardThree_def)
  have ar: "activeRestorable (captureCurrentState boardAB)"
    by (simp add: activeRestorable_def captureCurrentState_def boardAB_def
        CardManager_constructor_def cardA_def cardB_def)
  have ac: "snap_activeCard (captureCurrentState boardAB) = Some 2"
    by (simp add: captureCurrentState_def boardAB_def CardManager_constructor_def)
  have sl: "snap_selectedCards (captureCurrentState boardAB) = [2]"
    by (simp add: captureCurrentState_def boardAB_def CardManager_constructor_def)
  have cl: "length (snap_cards (captureCurrentState boardAB)) = 2"
    by (simp add: captureCurrentState_cards boardAB_def)
  from undo_redo_round_trip[OF constructor_valid _ _ sv nx,
      where before = "[(''initial_state'', No_payload, 0, boardA)]"
      and tag = "''create_card''" and d = No_payload and now = 1
      and saves = "[(''initial_state'', No_payload, 0, boardA),
                        (''create_card'', No_payload, 1, boardAB)]" and sbL = panelEditing]
  obtain s1 mF cmF sbF where
    a: "repeatOk (2 - 1) undo
           (saveStates [(''initial_state'', No_payload, 0, boardA),
                        (''create_card'', No_payload, 1, boardAB)] UndoRedoManager_constructor,
            boardThree, panelEditing) = Some s1"
    "repeatOk (2 - 1) redo s1 = Some (mF, cmF, sbF)"
    and rf: "restoredFrom (captureCurrentState boardAB) cmF"
    by (auto simp add: maxHistorySize_def)
  have "activeCard cmF = Some 2"
    using rf ar ac by (simp add: restoredFrom_def)
  moreover have "set (selectedCards cmF) = {2}"
    using rf sl by (simp add: restoredFrom_def)
  moreover have "length (cards cmF) = 2"
  proof -
    have "mset (map snd (cards cmF)) = mset (map snd (snap_cards (captureCurrentState boardAB)))"
      using rf by (simp add: restoredFrom_def)
    from mset_eq_length[OF this] show ?thesis using cl by simp
  qed
  ultimately have two: "\<exists>s1 mF cmF sbF.
         repeatOk (2 - 1) undo
           (saveStates [(''initial_state'', No_payload, 0, boardA),
                        (''create_card'', No_payload, 1, boardAB)] UndoRedoManager_constructor,
            boardThree, panelEditing) = Some s1
       \<and> repeatOk (2 - 1) redo s1 = Some (mF, cmF, sbF)
       \<and> restoredFrom (captureCurrentState boardAB) cmF
       \<and> length (cards cmF) = 2
       \<and> set (selectedCards cmF) = {2}
       \<and> activeCard cmF = Some 2"
    using a rf by blast
  show ?thesis
    using constructor_valid sv nx ar l3 two svA nxA one
    by - (intro conjI, assumption+)
qed


subsection \<open>Snapping\<close>











subsection \<open>Dragging\<close>

lemma fold_update_lookup:
  "map_of (fold (\<lambda>k acc. case map_of cs k of None \<Rightarrow> acc | Some c \<Rightarrow> AList.update k (g c) acc) ks acc) i =
     (if i \<in> set ks \<and> map_of cs i \<noteq> None then map_option g (map_of cs i) else map_of acc i)"
proof (induction ks arbitrary: acc)
  case Nil
  then show ?case by simp
next
  case (Cons k ks)
  show ?case
    by (cases "map_of cs k") (auto simp add: Cons.IH update_conv')
qed

lemma fold_update_keys:
  "fst ` set (fold (\<lambda>k acc. case map_of cs k of None \<Rightarrow> acc | Some c \<Rightarrow> AList.update k (g c) acc) ks acc) =
     fst ` set acc \<union> {k \<in> set ks. map_of cs k \<noteq> None}"
proof (induction ks arbitrary: acc)
  case Nil
  then show ?case by simp
next
  case (Cons k ks)
  show ?case
    by (cases "map_of cs k") (auto simp add: Cons.IH dom_update)
qed

lemma fold_update_distinct_keys:
  "distinct (map fst acc) \<Longrightarrow>
   distinct (map fst (fold (\<lambda>k acc. case map_of cs k of None \<Rightarrow> acc | Some c \<Rightarrow> AList.update k (g c) acc) ks acc))"
proof (induction ks arbitrary: acc)
  case Nil
  then show ?case by simp
next
  case (Cons k ks)
  show ?case
    using Cons.prems by (cases "map_of cs k") (auto intro!: Cons.IH simp add: distinct_update)
qed

lemma moveDragged_keys: "map fst (moveDragged oh mw d e cs) = map fst cs"
proof -
  have "map fst (AList.map_entry k f xs) = map fst xs" for k f and xs :: "(int \<times> card) list"
    by (induction xs) auto
  then show ?thesis by (cases e) (simp add: moveDragged_def)
qed

lemma fold_moveDragged_keys: "map fst (fold (moveDragged oh mw d) offs cs) = map fst cs"
  by (induction offs arbitrary: cs) (simp_all add: moveDragged_keys)

lemma Map_has_keys: "Map_has cs i \<longleftrightarrow> i \<in> set (map fst cs)"
  by (simp add: Map_has_def map_of_eq_None_iff)

lemma moveDragged_lookup:
  "map_of (moveDragged oh mw d (k, off) cs) i =
     (if i = k \<and> oh k \<noteq> None
      then map_option (\<lambda>c. c\<lparr>card_x := fst mw - fst off + fst d, card_y := snd mw - snd off + snd d\<rparr>)
             (map_of cs i)
      else map_of cs i)"
  by (auto simp add: moveDragged_def map_of_map_entry Map_has_def split: option.splits)

lemma fold_moveDragged_lookup:
  assumes "distinct (map fst offs)"
  shows "map_of (fold (moveDragged oh mw d) offs cs) i =
     (case map_of offs i of
        None \<Rightarrow> map_of cs i
      | Some off \<Rightarrow>
          if oh i \<noteq> None
          then map_option (\<lambda>c. c\<lparr>card_x := fst mw - fst off + fst d, card_y := snd mw - snd off + snd d\<rparr>)
                 (map_of cs i)
          else map_of cs i)"
  using assms
proof (induction offs arbitrary: cs)
  case Nil
  then show ?case by simp
next
  case (Cons e offs)
  obtain k off where e: "e = (k, off)" by (cases e)
  have d: "distinct (map fst offs)" and nk: "k \<notin> fst ` set offs"
    using Cons.prems e by auto
  have nk': "map_of offs k = None" using nk by (simp add: map_of_eq_None_iff)
  show ?case
    using Cons.IH[OF d, of "moveDragged oh mw d (k, off) cs"] nk'
    by (auto simp add: e moveDragged_lookup split: option.splits)
qed

lemma updateCardDrag_frame:
  assumes "updateCardDrag oh w cx cy cm = Some cm'"
  shows "map fst (cards cm') = map fst (cards cm) \<and> multiDragOffsets cm' = multiDragOffsets cm
       \<and> draggedCard cm' = draggedCard cm \<and> selectedCards cm' = selectedCards cm"
proof -
  have me: "map fst (AList.map_entry k f xs) = map fst xs" for k f and xs :: "(int \<times> card) list"
    by (induction xs) auto
  show ?thesis
    using assms
    by (auto simp add: updateCardDrag_def Let_def fold_moveDragged_keys me
        split: option.splits if_splits)
qed

lemma dragMoves_frame:
  assumes "dragMoves oh evs cm = Some cm'"
  shows "map fst (cards cm') = map fst (cards cm) \<and> multiDragOffsets cm' = multiDragOffsets cm
       \<and> draggedCard cm' = draggedCard cm \<and> selectedCards cm' = selectedCards cm"
  using assms
proof (induction evs arbitrary: cm)
  case Nil
  then show ?case by simp
next
  case (Cons e evs)
  obtain w cx cy where e: "e = (w, cx, cy)" by (cases e)
  from Cons.prems obtain cm1 where u: "updateCardDrag oh w cx cy cm = Some cm1"
    and r: "dragMoves oh evs cm1 = Some cm'"
    by (auto simp add: e split: option.splits)
  from updateCardDrag_frame[OF u] Cons.IH[OF r] show ?case by simp
qed

lemma updateCardDrag_anchored:
  assumes "updateCardDrag oh w cx cy cm = Some cm'"
    and "multiDragOffsets cm \<noteq> []" and "distinct (map fst (multiDragOffsets cm))"
    and "\<forall>i\<in>fst ` set (multiDragOffsets cm). oh i \<noteq> None"
    and "anchored (multiDragOffsets cm) t cm"
  shows "\<exists>t'. anchored (multiDragOffsets cm) t' cm'"
proof (cases "draggedCard cm")
  case None
  then have "cm' = cm" using assms(1) by (simp add: updateCardDrag_def)
  then show ?thesis using assms(5) by blast
next
  case (Some did)
  show ?thesis
  proof (cases "map_of (multiDragOffsets cm) did")
    case None
    then have "cm' = cm" using assms(1,2) Some by (simp add: updateCardDrag_def Let_def)
    then show ?thesis using assms(5) by blast
  next
    case (Some doff)
    define mw where "mw = screenToWorld w cx cy"
    from assms(1) \<open>draggedCard cm = Some did\<close> Some assms(2)
    obtain snapped where
      s: "applySnapping oh (fst mw - fst doff) (snd mw - snd doff) (map_of (cards cm) did)
            (selectedCards cm) (cards cm) = Some snapped"
      and c': "cm' = cm\<lparr>cards := fold (moveDragged oh mw
                (res_x snapped - (fst mw - fst doff), res_y snapped - (snd mw - snd doff)))
                (multiDragOffsets cm) (cards cm)\<rparr>"
      by (auto simp add: updateCardDrag_def Let_def mw_def split: option.splits)
    define d where "d = (res_x snapped - (fst mw - fst doff), res_y snapped - (snd mw - snd doff))"
    have "anchored (multiDragOffsets cm) (fst mw + fst d, snd mw + snd d) cm'"
      unfolding anchored_def
    proof (intro ballI, clarify)
      fix i ox oy assume m: "(i, ox, oy) \<in> set (multiDragOffsets cm)"
      then have lk: "map_of (multiDragOffsets cm) i = Some (ox, oy)"
        using assms(3) by simp
      have el: "oh i \<noteq> None" using assms(4) m by force
      from assms(5) m obtain c where c: "map_of (cards cm) i = Some c"
        by (force simp add: anchored_def cardPosition_def)
      show "cardPosition cm' i = Some (fst (fst mw + fst d, snd mw + snd d) - fst (ox, oy),
               snd (fst mw + fst d, snd mw + snd d) - snd (ox, oy))"
        using fold_moveDragged_lookup[OF assms(3), of oh mw d "cards cm" i] lk el c
        by (simp add: cardPosition_def c' d_def[symmetric])
    qed
    then show ?thesis by blast
  qed
qed

lemma dragMoves_anchored:
  assumes "dragMoves oh evs cm = Some cm'"
    and "multiDragOffsets cm \<noteq> []" and "distinct (map fst (multiDragOffsets cm))"
    and "\<forall>i\<in>fst ` set (multiDragOffsets cm). oh i \<noteq> None"
    and "anchored (multiDragOffsets cm) t cm"
  shows "\<exists>t'. anchored (multiDragOffsets cm) t' cm'"
  using assms
proof (induction evs arbitrary: cm t)
  case Nil
  then have "cm' = cm" by simp
  then show ?case using Nil.prems(5) by blast
next
  case (Cons e evs)
  obtain w cx cy where e: "e = (w, cx, cy)" by (cases e)
  from Cons.prems(1) obtain cm1 where u: "updateCardDrag oh w cx cy cm = Some cm1"
    and r: "dragMoves oh evs cm1 = Some cm'"
    by (auto simp add: e split: option.splits)
  from updateCardDrag_frame[OF u] have f: "multiDragOffsets cm1 = multiDragOffsets cm" by simp
  from updateCardDrag_anchored[OF u Cons.prems(2,3,4,5)]
  obtain t1 where a1: "anchored (multiDragOffsets cm) t1 cm1" by blast
  from Cons.IH[OF r, of t1] Cons.prems(2,3,4) a1 f show ?case by simp
qed

lemma map_of_distinct_mem:
  "distinct (map fst xs) \<Longrightarrow> (k, v) \<in> set xs \<Longrightarrow> map_of xs k = Some v"
  by simp

lemma startDragging_group:
  assumes "startDragging w now el cx cy (m, cm) = Some (m1, cm1)"
    and "el \<in> set (selectedCards cm)" and "Map_has (cards cm) el"
  shows "cards cm1 = cards cm \<and> draggedCard cm1 = Some el
       \<and> multiDragOffsets cm1 \<noteq> [] \<and> distinct (map fst (multiDragOffsets cm1))
       \<and> fst ` set (multiDragOffsets cm1) = {i \<in> set (selectedCards cm). Map_has (cards cm) i}
       \<and> anchored (multiDragOffsets cm1) (screenToWorld w cx cy) cm1
       \<and> m1 = saveDragState (if length (selectedCards cm) > 1 then ''multi_card_move'' else ''card_move'')
                 (selectedCards cm) (positionsOf (cards cm) (selectedCards cm)) now m"
proof -
  define mw where "mw = screenToWorld w cx cy"
  define g where "g = (\<lambda>c::card. (fst mw - card_x c, snd mw - card_y c))"
  define offs where "offs = fold (\<lambda>k acc. case map_of (cards cm) k of None \<Rightarrow> acc
        | Some c \<Rightarrow> AList.update k (g c) acc) (selectedCards cm) []"
  have oe: "fold (\<lambda>selectedId acc.
                  case map_of (cards cm) selectedId of None \<Rightarrow> acc
                  | Some c \<Rightarrow>
                      AList.update selectedId
                       (fst (screenToWorld w cx cy) - card_x c,
                        snd (screenToWorld w cx cy) - card_y c)
                       acc)
              (selectedCards cm) [] = offs"
    unfolding offs_def g_def mw_def ..
  have e: "cm1 = cm\<lparr>isDraggingCard := True, draggedCard := Some el,
                     dragStartPositions := positionsOf (cards cm) (selectedCards cm),
                     multiDragOffsets := offs\<rparr>"
    and m1: "m1 = saveDragState (if length (selectedCards cm) > 1 then ''multi_card_move'' else ''card_move'')
                 (selectedCards cm) (positionsOf (cards cm) (selectedCards cm)) now m"
    using assms(1,2) unfolding oe[symmetric] by (auto simp add: startDragging_def Let_def)
  have k: "fst ` set offs = {i \<in> set (selectedCards cm). Map_has (cards cm) i}"
    unfolding offs_def fold_update_keys by (auto simp add: Map_has_def)
  have d: "distinct (map fst offs)"
    unfolding offs_def by (rule fold_update_distinct_keys) simp
  have ne: "offs \<noteq> []" using k assms(2,3) by auto
  have a: "anchored offs mw cm1"
    unfolding anchored_def
  proof (intro ballI, clarify)
    fix i ox oy assume m: "(i, ox, oy) \<in> set offs"
    then have "map_of offs i = Some (ox, oy)" using d by simp
    moreover have "map_of offs i = (if i \<in> set (selectedCards cm) \<and> map_of (cards cm) i \<noteq> None
        then map_option g (map_of (cards cm) i) else None)"
      unfolding offs_def fold_update_lookup by simp
    ultimately obtain c where c: "map_of (cards cm) i = Some c" and o: "(ox, oy) = g c"
      by (auto split: if_splits)
    show "cardPosition cm1 i = Some (fst mw - fst (ox, oy), snd mw - snd (ox, oy))"
      using c o by (simp add: cardPosition_def e g_def)
  qed
  show ?thesis
    using e m1 k d ne a by (simp add: mw_def)
qed

lemma startDragging_single:
  assumes "startDragging w now el cx cy (m, cm) = Some (m1, cm1)"
    and "el \<notin> set (selectedCards cm)"
  shows "cards cm1 = cards cm \<and> draggedCard cm1 = Some el \<and> multiDragOffsets cm1 = []
       \<and> Map_has (cards cm) el
       \<and> m1 = saveDragState ''card_move'' [el] (positionsOf (cards cm) [el]) now m"
  using assms
  by (auto simp add: startDragging_def Let_def Map_has_def positionsOf_def split: option.splits)

lemma drag_uniform_translation:
  assumes "startDragging w now el cx cy (m, cm0) = Some (m1, cm1)"
    and "dragMoves oh evs cm1 = Some cm2"
    and "Map_has (cards cm0) el"
    and "list_all (\<lambda>i. oh i \<noteq> None) (draggedGroup cm1)"
  shows "\<exists>dx dy. \<forall>i\<in>set (draggedGroup cm1). \<exists>x y.
           cardPosition cm0 i = Some (x, y) \<and> cardPosition cm2 i = Some (x + dx, y + dy)"
proof (cases "el \<in> set (selectedCards cm0)")
  case True
  from startDragging_group[OF assms(1) True assms(3)]
  have c: "cards cm1 = cards cm0" and ne: "multiDragOffsets cm1 \<noteq> []"
    and d: "distinct (map fst (multiDragOffsets cm1))"
    and a: "anchored (multiDragOffsets cm1) (screenToWorld w cx cy) cm1"
    by simp_all
  have g: "draggedGroup cm1 = map fst (multiDragOffsets cm1)" using ne by (simp add: draggedGroup_def)
  have el: "\<forall>i\<in>fst ` set (multiDragOffsets cm1). oh i \<noteq> None"
    using assms(4) by (auto simp add: g list_all_iff)
  from dragMoves_anchored[OF assms(2) ne d el a]
  obtain t' where a': "anchored (multiDragOffsets cm1) t' cm2" by blast
  define t where "t = screenToWorld w cx cy"
  have "\<forall>i\<in>set (draggedGroup cm1). \<exists>x y.
           cardPosition cm0 i = Some (x, y)
         \<and> cardPosition cm2 i = Some (x + (fst t' - fst t), y + (snd t' - snd t))"
  proof
    fix i assume "i \<in> set (draggedGroup cm1)"
    then obtain ox oy where m: "(i, ox, oy) \<in> set (multiDragOffsets cm1)" by (auto simp add: g)
    have p0: "cardPosition cm0 i = Some (fst t - ox, snd t - oy)"
      using a m c by (force simp add: anchored_def t_def cardPosition_def)
    have p2: "cardPosition cm2 i = Some (fst t' - ox, snd t' - oy)"
      using a' m by (force simp add: anchored_def)
    show "\<exists>x y. cardPosition cm0 i = Some (x, y)
         \<and> cardPosition cm2 i = Some (x + (fst t' - fst t), y + (snd t' - snd t))"
      using p0 p2 by simp
  qed
  then show ?thesis by blast
next
  case False
  from startDragging_single[OF assms(1) False]
  have c: "cards cm1 = cards cm0" and dc: "draggedCard cm1 = Some el"
    and e: "multiDragOffsets cm1 = []" and h: "Map_has (cards cm0) el"
    by simp_all
  have g: "draggedGroup cm1 = [el]" using e dc by (simp add: draggedGroup_def)
  from dragMoves_frame[OF assms(2)] have k: "map fst (cards cm2) = map fst (cards cm0)"
    using c by simp
  obtain c0 where c0: "map_of (cards cm0) el = Some c0"
    using h by (auto simp add: Map_has_def)
  have "Map_has (cards cm2) el" using h k by (simp add: Map_has_keys)
  then obtain c2 where c2: "map_of (cards cm2) el = Some c2"
    by (auto simp add: Map_has_def)
  have "cardPosition cm0 el = Some (card_x c0, card_y c0)
      \<and> cardPosition cm2 el = Some (card_x c0 + (card_x c2 - card_x c0), card_y c0 + (card_y c2 - card_y c0))"
    using c0 c2 by (simp add: cardPosition_def)
  then show ?thesis unfolding g by (metis list.set_cases list.inject empty_iff empty_set set_ConsD)
qed


lemma saveState_pending:
  "saveState tag d t cm (m\<lparr>pendingDragOperation := p\<rparr>)
     = (saveState tag d t cm m)\<lparr>pendingDragOperation := p\<rparr>"
  by (simp add: saveState_def Let_def)

lemma saveState_last_entry:
  assumes "\<not> isPerformingUndoRedo m"
  shows "last (history (saveState tag d now cm m)) =
     \<lparr>operation = tag, timestamp = now, state = captureCurrentState cm, payload_data = d\<rparr>"
proof -
  define e where "e = \<lparr>operation = tag, timestamp = now, state = captureCurrentState cm, payload_data = d\<rparr>"
  define h1 where "h1 = (if currentIndex m < int (length (history m)) - 1
                  then slice0 (history m) (currentIndex m + 1) else history m)"
  have s: "saveState tag d now cm m =
     (if length (h1 @ [e]) > maxHistorySize
           then m\<lparr>history := tl (h1 @ [e]), currentIndex := currentIndex m + 1 - 1\<rparr>
           else m\<lparr>history := h1 @ [e], currentIndex := currentIndex m + 1\<rparr>)"
    using assms by (simp add: saveState_def Let_def h1_def e_def)
  show ?thesis
  proof (cases "length (h1 @ [e]) > maxHistorySize")
    case True
    then have "h1 \<noteq> []" by (auto simp add: maxHistorySize_def)
    then have "tl (h1 @ [e]) = tl h1 @ [e]" by simp
    then show ?thesis using True unfolding s by (simp add: e_def)
  next
    case False
    then show ?thesis unfolding s by (simp add: e_def)
  qed
qed

lemma positionsOf_lookup:
  "map_of (positionsOf cs ids) i =
     (if i \<in> set ids then map_option (\<lambda>c. (card_x c, card_y c)) (map_of cs i) else None)"
  unfolding positionsOf_def fold_update_lookup by auto

lemma fold_update_all_keys:
  assumes "distinct (map fst acc @ ks)" and "\<forall>k\<in>set ks. map_of cs k \<noteq> None"
  shows "map fst (fold (\<lambda>k acc. case map_of cs k of None \<Rightarrow> acc | Some c \<Rightarrow> AList.update k (g c) acc) ks acc)
     = map fst acc @ ks"
  using assms
proof (induction ks arbitrary: acc)
  case Nil
  then show ?case by simp
next
  case (Cons k ks)
  from Cons.prems(2) obtain c where c: "map_of cs k = Some c" by auto
  have f: "k \<notin> fst ` set acc" using Cons.prems(1) by auto
  have u: "AList.update k (g c) acc = acc @ [(k, g c)]" using update_fresh[OF f] .
  have d: "distinct (map fst (acc @ [(k, g c)]) @ ks)" using Cons.prems(1) by auto
  show ?case
    using Cons.IH[OF d] Cons.prems(2) by (simp add: c u)
qed

lemma startDragging_pending:
  assumes "\<not> isPerformingUndoRedo m" and "selectionValid cm0"
    and "startDragging w now el cx cy (m, cm0) = Some (m1, cm1)"
  shows "cards cm1 = cards cm0 \<and> draggedCard cm1 = Some el
       \<and> list_all (Map_has (cards cm0)) (draggedGroup cm1)
       \<and> m1 = m\<lparr>pendingDragOperation :=
               Some \<lparr>pd_operation = (if length (draggedGroup cm1) > 1 then ''multi_card_move''
                                      else ''card_move''),
                     pd_cardIds = draggedGroup cm1,
                     pd_startPositions = positionsOf (cards cm0) (draggedGroup cm1),
                     pd_timestamp = now\<rparr>\<rparr>"
proof (cases "el \<in> set (selectedCards cm0)")
  case True
  have ex: "\<forall>k\<in>set (selectedCards cm0). map_of (cards cm0) k \<noteq> None"
    and ds: "distinct (selectedCards cm0)"
    using assms(2) by (auto simp add: selectionValid_def list_all_iff Map_has_def)
  have h: "Map_has (cards cm0) el" using ex True by (simp add: Map_has_def)
  from startDragging_group[OF assms(3) True h]
  have c: "cards cm1 = cards cm0" and dc: "draggedCard cm1 = Some el"
    and ne: "multiDragOffsets cm1 \<noteq> []"
    and m1: "m1 = saveDragState (if length (selectedCards cm0) > 1 then ''multi_card_move'' else ''card_move'')
                 (selectedCards cm0) (positionsOf (cards cm0) (selectedCards cm0)) now m"
    by simp_all
  have "multiDragOffsets cm1 = fold (\<lambda>k acc. case map_of (cards cm0) k of None \<Rightarrow> acc
        | Some c \<Rightarrow> AList.update k (fst (screenToWorld w cx cy) - card_x c,
                        snd (screenToWorld w cx cy) - card_y c) acc) (selectedCards cm0) []"
    using assms(3) True by (auto simp add: startDragging_def Let_def)
  then have "map fst (multiDragOffsets cm1) = selectedCards cm0"
    using fold_update_all_keys[of "[]" "selectedCards cm0" "cards cm0"
        "\<lambda>c. (fst (screenToWorld w cx cy) - card_x c, snd (screenToWorld w cx cy) - card_y c)"]
      ds ex by simp
  then have g: "draggedGroup cm1 = selectedCards cm0" using ne by (simp add: draggedGroup_def)
  show ?thesis
    using c dc m1 assms(1,2) by (simp add: g saveDragState_def selectionValid_def)
next
  case False
  from startDragging_single[OF assms(3) False]
  have c: "cards cm1 = cards cm0" and dc: "draggedCard cm1 = Some el"
    and e: "multiDragOffsets cm1 = []" and h: "Map_has (cards cm0) el"
    and m1: "m1 = saveDragState ''card_move'' [el] (positionsOf (cards cm0) [el]) now m"
    by simp_all
  have g: "draggedGroup cm1 = [el]" using e dc by (simp add: draggedGroup_def)
  show ?thesis
    using c dc m1 h assms(1) by (simp add: g saveDragState_def)
qed

lemma hasChanged_moved:
  assumes "map fst cs2 = map fst cs0" and "list_all (Map_has cs0) ids"
  shows "list_ex (\<lambda>cardId.
             case map_of (positionsOf cs0 ids) cardId of
               None \<Rightarrow> False
             | Some start \<Rightarrow>
                 (case map_of (positionsOf cs2 ids) cardId of
                    None \<Rightarrow> False
                  | Some final \<Rightarrow> fst start \<noteq> fst final \<or> snd start \<noteq> snd final)) ids
       \<longleftrightarrow> list_ex (\<lambda>i. map_option (\<lambda>c. (card_x c, card_y c)) (map_of cs2 i)
                       \<noteq> map_option (\<lambda>c. (card_x c, card_y c)) (map_of cs0 i)) ids"
proof -
  have "\<And>i. i \<in> set ids \<Longrightarrow>
      (case map_of (positionsOf cs0 ids) i of
               None \<Rightarrow> False
             | Some start \<Rightarrow>
                 (case map_of (positionsOf cs2 ids) i of
                    None \<Rightarrow> False
                  | Some final \<Rightarrow> fst start \<noteq> fst final \<or> snd start \<noteq> snd final))
      = (map_option (\<lambda>c. (card_x c, card_y c)) (map_of cs2 i)
                       \<noteq> map_option (\<lambda>c. (card_x c, card_y c)) (map_of cs0 i))"
  proof -
    fix i assume i: "i \<in> set ids"
    then have "Map_has cs0 i" using assms(2) by (simp add: list_all_iff)
    then obtain c0 where c0: "map_of cs0 i = Some c0" by (auto simp add: Map_has_def)
    have "Map_has cs2 i" using \<open>Map_has cs0 i\<close> assms(1) by (simp add: Map_has_keys)
    then obtain c2 where c2: "map_of cs2 i = Some c2" by (auto simp add: Map_has_def)
    show "(case map_of (positionsOf cs0 ids) i of
               None \<Rightarrow> False
             | Some start \<Rightarrow>
                 (case map_of (positionsOf cs2 ids) i of
                    None \<Rightarrow> False
                  | Some final \<Rightarrow> fst start \<noteq> fst final \<or> snd start \<noteq> snd final))
      = (map_option (\<lambda>c. (card_x c, card_y c)) (map_of cs2 i)
                       \<noteq> map_option (\<lambda>c. (card_x c, card_y c)) (map_of cs0 i))"
      using i c0 c2 by (auto simp add: positionsOf_lookup)
  qed
  then show ?thesis by (simp add: list_ex_iff)
qed


text \<open>
  The rounding at work: the literals 0.1, 1/3, -0.7 and 300.4 as the engine holds them;
  a value every binary64 holds exactly; and the two ties next to 1, which go to the even
  significand, one down and one up.
\<close>

lemma binary64_examples:
  "binary64 (1 / 10) = 3602879701896397 / 36028797018963968"
  "binary64 (1 / 3) = 6004799503160661 / 18014398509481984"
  "binary64 (- (7 / 10)) = - (3152519739159347 / 4503599627370496)"
  "binary64 (1502 / 5) = 2642346343871283 / 8796093022208"
  "binary64 305 = 305"
  "binary64 (9007199254740993 / 9007199254740992) = 1"
  "binary64 (9007199254740995 / 9007199254740992) = 2251799813685249 / 2251799813685248"
  by code_simp+

text \<open>
  C6 (as stated: on every pointer movement of a multi-card drag every member of the
  group keeps its relative offset to every other member unchanged from drag start). The
  code computes in binary64 and every subtraction and addition rounds. Cards P and Q,
  both selected, at x = 0.1 and x = 0.3 with no other card on the board, so that no
  snapping is engaged; the viewport is the constructor's (no translation, scale 1). The
  pointer grabs P at (0.7, 50): the offsets are 0.7 - 0.1 = 0.6 and 0.7 - 0.3 =
  0.39999999999999997. It moves to (1, 50): P goes to 1 - 0.6 = 0.4 and Q to
  1 - 0.39999999999999997 = 0.6000000000000001. Q was 0.19999999999999998 to the
  right of P and is now 0.20000000000000007 to the right of it, whether the two gaps
  are compared as exact values or as the binary64 differences the engine would compute.
\<close>

theorem group_drag_binary64_counterexample:
  "map_option (\<lambda>cm. map (\<lambda>(k, c). (card_x c, card_y c)) (cards cm))
     (Option.bind
        (startDragging64 World_constructor 0 1 (binary64 (7 / 10)) 50
           (UndoRedoManager_constructor, boardFractional))
        (\<lambda>(m, cm). updateCardDrag64 measured100 World_constructor 1 50 cm))
     = Some [(3602879701896397 / 9007199254740992, 0),
             (1351079888211149 / 2251799813685248, 0)]
   \<and> map (\<lambda>(k, c). (card_x c, card_y c)) (cards boardFractional)
     = [(3602879701896397 / 36028797018963968, 0),
        (5404319552844595 / 18014398509481984, 0)]
   \<and> (1351079888211149 / 2251799813685248 - 3602879701896397 / 9007199254740992 :: real)
       \<noteq> 5404319552844595 / 18014398509481984 - 3602879701896397 / 36028797018963968
   \<and> binary64 (1351079888211149 / 2251799813685248 - 3602879701896397 / 9007199254740992)
       \<noteq> binary64 (5404319552844595 / 18014398509481984 - 3602879701896397 / 36028797018963968)"
  by code_simp

text \<open>
  C6 (amended): with the arithmetic of the drag path read as exact real arithmetic, that
  is without the rounding of the binary64 operations: after \<open>startDragging\<close> on an
  element that belongs to a card, and any run of pointer movements (each read through
  the viewport of its moment, snapped or not), any two cards of the dragged group are as
  far apart, on both axes, as they were when the drag started. Every dragged card has
  its element in the DOM (a card without one is skipped by the update), and the
  viewports have a non-zero scale (so that the pointer's world position is a number).
\<close>

theorem group_drag_rigid:
  assumes "startDragging w now el cx cy (m, cm0) = Some (m1, cm1)"
    and "dragMoves oh evs cm1 = Some cm2"
    and "Map_has (cards cm0) el"
    and "list_all (\<lambda>i. oh i \<noteq> None) (draggedGroup cm1)"
    and "scale w \<noteq> 0" and "list_all (\<lambda>(w', cx', cy'). scale w' \<noteq> 0) evs"
    and "i \<in> set (draggedGroup cm1)" and "j \<in> set (draggedGroup cm1)"
  shows "\<exists>xi yi xj yj xi' yi' xj' yj'.
           cardPosition cm0 i = Some (xi, yi) \<and> cardPosition cm0 j = Some (xj, yj)
         \<and> cardPosition cm2 i = Some (xi', yi') \<and> cardPosition cm2 j = Some (xj', yj')
         \<and> xi' - xj' = xi - xj \<and> yi' - yj' = yi - yj"
proof -
  from drag_uniform_translation[OF assms(1,2,3,4)]
  obtain dx dy where u: "\<forall>i\<in>set (draggedGroup cm1). \<exists>x y.
           cardPosition cm0 i = Some (x, y) \<and> cardPosition cm2 i = Some (x + dx, y + dy)"
    by blast
  from u assms(7) obtain xi yi where
    i: "cardPosition cm0 i = Some (xi, yi)" "cardPosition cm2 i = Some (xi + dx, yi + dy)" by blast
  from u assms(8) obtain xj yj where
    j: "cardPosition cm0 j = Some (xj, yj)" "cardPosition cm2 j = Some (xj + dx, yj + dy)" by blast
  have "xi + dx - (xj + dx) = xi - xj" "yi + dy - (yj + dy) = yi - yj" by simp_all
  then show ?thesis using i j by blast
qed

text \<open>
  Witness: cards A and B selected, C stationary at x = 697; the pointer grabs B and
  moves twice. At the second position the right edge of B is 2 short of the left edge
  of C, so the reference card snaps by +2 and both dragged cards take the correction:
  B ends at (397, 40), and the theorem puts A at (92, 40).
\<close>

theorem group_drag_rigid_witness:
  "\<exists>m1 cm1 cm2.
      startDragging World_constructor 0 2 310 10 (UndoRedoManager_constructor, boardThree)
        = Some (m1, cm1)
    \<and> dragMoves measured100 [(World_constructor, 360, 30), (World_constructor, 400, 50)] cm1
        = Some cm2
    \<and> Map_has (cards boardThree) 2
    \<and> list_all (\<lambda>i. measured100 i \<noteq> None) (draggedGroup cm1)
    \<and> scale World_constructor \<noteq> 0
    \<and> list_all (\<lambda>(w', cx', cy'). scale w' \<noteq> 0)
          [(World_constructor, 360 :: real, 30 :: real), (World_constructor, 400, 50)]
    \<and> draggedGroup cm1 = [1, 2]
    \<and> cardPosition boardThree 1 = Some (0, 0) \<and> cardPosition boardThree 2 = Some (305, 0)
    \<and> cardPosition cm2 1 = Some (92, 40) \<and> cardPosition cm2 2 = Some (397, 40)"
proof -
  define r where "r = the (startDragging World_constructor 0 2 310 10
                            (UndoRedoManager_constructor, boardThree))"
  define cm2 where "cm2 = the (dragMoves measured100
                            [(World_constructor, 360, 30), (World_constructor, 400, 50)] (snd r))"
  have s: "startDragging World_constructor 0 2 310 10 (UndoRedoManager_constructor, boardThree)
             = Some (fst r, snd r)"
    unfolding r_def by code_simp
  have d: "dragMoves measured100 [(World_constructor, 360, 30), (World_constructor, 400, 50)] (snd r)
             = Some cm2"
    unfolding cm2_def r_def by code_simp
  have g: "draggedGroup (snd r) = [1, 2]" unfolding r_def by code_simp
  have h: "Map_has (cards boardThree) 2" by code_simp
  have e: "list_all (\<lambda>i. measured100 i \<noteq> None) (draggedGroup (snd r))"
    by (simp add: list_all_iff measured100_def)
  have sc: "scale World_constructor \<noteq> 0" by (simp add: World_constructor_def)
  have sc2: "list_all (\<lambda>(w', cx', cy'). scale w' \<noteq> 0)
               [(World_constructor, 360 :: real, 30 :: real), (World_constructor, 400, 50)]"
    by (simp add: World_constructor_def)
  have p0: "cardPosition boardThree 1 = Some (0, 0)" "cardPosition boardThree 2 = Some (305, 0)"
    by code_simp+
  have p2: "cardPosition cm2 2 = Some (397, 40)" unfolding cm2_def r_def by code_simp
  from group_drag_rigid[OF s d h e sc sc2, of 1 2] g p0 p2
  have "cardPosition cm2 1 = Some (92, 40)" by auto
  then show ?thesis using s d g h e sc sc2 p0 p2 by blast
qed

text \<open>
  C7: a drag gesture, from \<open>startDragging\<close> through any pointer movements to
  \<open>endDragging\<close>, outside a restore and with a valid selection. Starting the drag
  leaves history and index untouched. Ending it calls \<open>saveState\<close> exactly once if some
  dragged card is not where it started, with the tag \<open>card_move\<close> for one dragged card
  and \<open>multi_card_move\<close> for several, so that the last history entry carries that tag
  and the snapshot of the final store; and it leaves history and index untouched if
  every dragged card is where it started. Either way the pending drag is cleared.
\<close>

theorem drag_history_entry:
  assumes "\<not> isPerformingUndoRedo m" and "selectionValid cm0"
    and "startDragging w now0 el cx cy (m, cm0) = Some (m1, cm1)"
    and "dragMoves oh evs cm1 = Some cm2"
    and "endDragging now1 (m1, cm2) = (m3, cm3)"
  shows "history m1 = history m \<and> currentIndex m1 = currentIndex m
       \<and> m3 = (if list_ex (\<lambda>i. cardPosition cm2 i \<noteq> cardPosition cm0 i) (draggedGroup cm1)
               then saveState
                      (if length (draggedGroup cm1) > 1 then ''multi_card_move'' else ''card_move'')
                      (Drag_payload (draggedGroup cm1)
                         (positionsOf (cards cm0) (draggedGroup cm1))
                         (positionsOf (cards cm2) (draggedGroup cm1)))
                      now1 cm2 m
               else m)\<lparr>pendingDragOperation := None\<rparr>
       \<and> (if list_ex (\<lambda>i. cardPosition cm2 i \<noteq> cardPosition cm0 i) (draggedGroup cm1)
          then operation (last (history m3))
                 = (if length (draggedGroup cm1) > 1 then ''multi_card_move'' else ''card_move'')
               \<and> state (last (history m3)) = captureCurrentState cm2
          else history m3 = history m \<and> currentIndex m3 = currentIndex m)"
proof -
  define tag where "tag = (if length (draggedGroup cm1) > 1 then ''multi_card_move'' else ''card_move'')"
  define ids where "ids = draggedGroup cm1"
  define moved where "moved = list_ex (\<lambda>i. cardPosition cm2 i \<noteq> cardPosition cm0 i) ids"
  define d where "d = Drag_payload ids (positionsOf (cards cm0) ids) (positionsOf (cards cm2) ids)"
  from startDragging_pending[OF assms(1,2,3)]
  have c: "cards cm1 = cards cm0" and dc: "draggedCard cm1 = Some el"
    and ex: "list_all (Map_has (cards cm0)) ids"
    and m1: "m1 = m\<lparr>pendingDragOperation :=
               Some \<lparr>pd_operation = tag, pd_cardIds = ids,
                     pd_startPositions = positionsOf (cards cm0) ids, pd_timestamp = now0\<rparr>\<rparr>"
    by (simp_all add: tag_def ids_def)
  from dragMoves_frame[OF assms(4)]
  have k: "map fst (cards cm2) = map fst (cards cm0)" and dc2: "draggedCard cm2 = Some el"
    using c dc by simp_all
  have m3: "m3 = finishDragOperation now1 cm2 m1"
    using assms(5) dc2 by (simp add: endDragging_def)
  have hc: "list_ex (\<lambda>cardId.
             case map_of (positionsOf (cards cm0) ids) cardId of
               None \<Rightarrow> False
             | Some start \<Rightarrow>
                 (case map_of (positionsOf (cards cm2) ids) cardId of
                    None \<Rightarrow> False
                  | Some final \<Rightarrow> fst start \<noteq> fst final \<or> snd start \<noteq> snd final)) ids = moved"
    unfolding hasChanged_moved[OF k ex] moved_def cardPosition_def ..
  have f: "m3 = (if moved then saveState tag d now1 cm2 m else m)\<lparr>pendingDragOperation := None\<rparr>"
    unfolding m3 m1 using assms(1)
    by (simp add: finishDragOperation_def Let_def hc saveState_pending d_def)
  have h1: "history m1 = history m \<and> currentIndex m1 = currentIndex m" by (simp add: m1)
  have l: "moved \<Longrightarrow> operation (last (history m3)) = tag
      \<and> state (last (history m3)) = captureCurrentState cm2"
    using saveState_last_entry[OF assms(1), of tag d now1 cm2] by (simp add: f)
  have n: "\<not> moved \<Longrightarrow> history m3 = history m \<and> currentIndex m3 = currentIndex m"
    by (simp add: f)
  show ?thesis
    using h1 f l n unfolding moved_def d_def tag_def ids_def by auto
qed

text \<open>
  Witness: the same gesture on a history that holds the initial state; it ends with
  two entries, the second tagged \<open>multi_card_move\<close>.
\<close>

theorem drag_history_entry_witness:
  "\<not> isPerformingUndoRedo (initialize 0 boardThree UndoRedoManager_constructor)
   \<and> selectionValid boardThree
   \<and> (\<exists>m1 cm1 cm2 m3 cm3.
         startDragging World_constructor 1 2 310 10
           (initialize 0 boardThree UndoRedoManager_constructor, boardThree) = Some (m1, cm1)
       \<and> dragMoves measured100 [(World_constructor, 360, 30), (World_constructor, 400, 50)] cm1
           = Some cm2
       \<and> endDragging 2 (m1, cm2) = (m3, cm3)
       \<and> length (history m1) = 1
       \<and> length (history m3) = 2
       \<and> operation (last (history m3)) = ''multi_card_move''
       \<and> state (last (history m3)) = captureCurrentState cm2)"
proof -
  define m where "m = initialize 0 boardThree UndoRedoManager_constructor"
  define r where "r = the (startDragging World_constructor 1 2 310 10 (m, boardThree))"
  define cm2 where "cm2 = the (dragMoves measured100
                            [(World_constructor, 360, 30), (World_constructor, 400, 50)] (snd r))"
  define q where "q = endDragging 2 (fst r, cm2)"
  have idle: "\<not> isPerformingUndoRedo m" unfolding m_def by code_simp
  have sv: "selectionValid boardThree" by code_simp
  have s: "startDragging World_constructor 1 2 310 10 (m, boardThree) = Some (fst r, snd r)"
    unfolding r_def m_def by code_simp
  have d: "dragMoves measured100 [(World_constructor, 360, 30), (World_constructor, 400, 50)] (snd r)
             = Some cm2"
    unfolding cm2_def r_def m_def by code_simp
  have e: "endDragging 2 (fst r, cm2) = (fst q, snd q)" by (simp add: q_def)
  have mv: "list_ex (\<lambda>i. cardPosition cm2 i \<noteq> cardPosition boardThree i) (draggedGroup (snd r))"
    unfolding cm2_def r_def m_def by code_simp
  have g: "length (draggedGroup (snd r)) > 1" unfolding r_def m_def by code_simp
  have l1: "length (history (fst r)) = 1" unfolding r_def m_def by code_simp
  have l3: "length (history (fst q)) = 2" unfolding q_def cm2_def r_def m_def by code_simp
  have "if list_ex (\<lambda>i. cardPosition cm2 i \<noteq> cardPosition boardThree i) (draggedGroup (snd r))
        then operation (last (history (fst q)))
               = (if length (draggedGroup (snd r)) > 1 then ''multi_card_move'' else ''card_move'')
             \<and> state (last (history (fst q))) = captureCurrentState cm2
        else history (fst q) = history m \<and> currentIndex (fst q) = currentIndex m"
    using drag_history_entry[OF idle sv s d e] by blast
  then have "operation (last (history (fst q))) = ''multi_card_move''
      \<and> state (last (history (fst q))) = captureCurrentState cm2"
    by (simp only: mv g if_True)
  then show ?thesis
    unfolding m_def[symmetric] using idle sv s d e l1 l3 by blast
qed

subsection \<open>Import\<close>

text \<open>
  C8: when the file cannot be read or parsed, or what it parses to has no array-typed
  \<open>cards\<close>, \<open>importData\<close> rejects (with the parser's error, a TypeError for \<open>null\<close>, or
  the error \<open>Invalid data format\<close>) and the persisted data, the card store and the
  viewport are exactly what they were; whenever \<open>importData\<close> changes any of them, the
  document had passed validation.
\<close>

theorem import_rejects_without_mutation:
  "(\<not> validates fc \<longrightarrow>
      snd (importData fc writable now st) = st
      \<and> fst (importData fc writable now st)
          = Inl (case fc of
                   Read_failed \<Rightarrow> Failed_to_read_file
                 | Unparsable msg \<Rightarrow> SyntaxError msg
                 | Parsed_null \<Rightarrow> TypeError
                 | Parsed d \<Rightarrow> Invalid_data_format))
   \<and> (snd (importData fc writable now st) \<noteq> st \<longrightarrow> validates fc)"
proof -
  obtain stored cm w where st: "st = (stored, cm, w)" by (cases st)
  have a: "\<not> validates fc \<Longrightarrow>
      snd (importData fc writable now st) = st
      \<and> fst (importData fc writable now st)
          = Inl (case fc of
                   Read_failed \<Rightarrow> Failed_to_read_file
                 | Unparsable msg \<Rightarrow> SyntaxError msg
                 | Parsed_null \<Rightarrow> TypeError
                 | Parsed d \<Rightarrow> Invalid_data_format)"
    by (cases fc) (auto simp add: importData_def validates_def st split: docCards.splits)
  then show ?thesis by blast
qed

text \<open>
  Witness: the board holds cards A and B and the storage an earlier save; a document
  whose \<open>cards\<close> is the string "not an array" is rejected and nothing changes.
\<close>

theorem import_rejects_without_mutation_witness:
  "\<not> validates (Parsed \<lparr>doc_cards = Cards_not_array, doc_worldState = None\<rparr>)
   \<and> importData (Parsed \<lparr>doc_cards = Cards_not_array, doc_worldState = None\<rparr>) True 7
       (Some \<lparr>p_cards = [Some (asInit cardA), Some (asInit cardB)],
               p_worldState = emptyWorldState, p_version = ''1.0'', p_timestamp = 3\<rparr>,
        boardAB, World_constructor)
     = (Inl Invalid_data_format,
        (Some \<lparr>p_cards = [Some (asInit cardA), Some (asInit cardB)],
                p_worldState = emptyWorldState, p_version = ''1.0'', p_timestamp = 3\<rparr>,
         boardAB, World_constructor))"
proof -
  have v: "\<not> validates (Parsed \<lparr>doc_cards = Cards_not_array, doc_worldState = None\<rparr>)"
    by (simp add: validates_def)
  from import_rejects_without_mutation[of "Parsed \<lparr>doc_cards = Cards_not_array, doc_worldState = None\<rparr>"
      True 7 "(Some \<lparr>p_cards = [Some (asInit cardA), Some (asInit cardB)],
               p_worldState = emptyWorldState, p_version = ''1.0'', p_timestamp = 3\<rparr>,
        boardAB, World_constructor)"] v
  show ?thesis by (simp add: prod_eq_iff)
qed

end
